theory Spec2Isabelle
  imports Complex_Main "HOL-Library.Sublist" "HOL-Library.Word"
begin

unbundle bit_operations_syntax

section \<open>Go strings\<close>

text \<open>
  A Go string is a sequence of bytes and \<open>len\<close> counts bytes.  Identifiers, error
  messages and map keys are modelled as \<^typ>\<open>string\<close> (a list of 8-bit characters).
\<close>

text \<open>\<open>strings.HasPrefix\<close> is \<^const>\<open>prefix\<close>; \<open>strings.TrimPrefix\<close>:\<close>

definition TrimPrefix :: "string \<Rightarrow> string \<Rightarrow> string" where
  "TrimPrefix s p = (if prefix p s then drop (length p) s else s)"

text \<open>\<open>strings.Contains\<close>: some suffix of \<open>s\<close> starts with \<open>sub\<close>.\<close>

fun Contains :: "string \<Rightarrow> string \<Rightarrow> bool" where
  "Contains [] sub = (sub = [])"
| "Contains (c # cs) sub = (if prefix sub (c # cs) then True else Contains cs sub)"

section \<open>Stop-reason normalisation (\<open>mapStopReasonToRevenium\<close>)\<close>

text \<open>
  The \<open>switch\<close> of the source, case by case and in its order.  The \<open>Debug\<close> call of the
  default branch only logs.
\<close>

definition mapStopReasonToRevenium :: "string \<Rightarrow> string" where
  "mapStopReasonToRevenium stopReason =
     (if stopReason = ''end_turn'' then ''END''
      else if stopReason = ''max_tokens'' \<or> stopReason = ''model_context_window_exceeded''
        then ''TOKEN_LIMIT''
      else if stopReason = ''stop_sequence'' then ''END_SEQUENCE''
      else if stopReason = ''tool_use'' then ''END''
      else if stopReason = ''pause_turn'' then ''END''
      else if stopReason = ''refusal'' then ''ERROR''
      else if stopReason = ''timeout'' then ''TIMEOUT''
      else if stopReason = ''error'' then ''ERROR''
      else if stopReason = ''cancelled'' \<or> stopReason = ''canceled'' then ''CANCELLED''
      else ''END'')"

text \<open>The raw stop reasons the \<open>switch\<close> names.\<close>

definition stopReasonTable :: "string list" where
  "stopReasonTable =
     [''end_turn'', ''max_tokens'', ''model_context_window_exceeded'', ''stop_sequence'',
      ''tool_use'', ''pause_turn'', ''refusal'', ''timeout'', ''error'', ''cancelled'',
      ''canceled'']"

section \<open>Retryable-error classification (\<open>IsRetryableError\<close>)\<close>

text \<open>
  The helper \<open>contains\<close> of \<open>bedrock.go\<close>, as written:
  \<^verbatim>\<open>return len(s) >= len(substr) && (s == substr || len(s) > 0)\<close>
\<close>

definition contains :: "string \<Rightarrow> string \<Rightarrow> bool" where
  "contains s substr = (length substr \<le> length s \<and> (s = substr \<or> 0 < length s))"

definition retryablePatterns :: "string list" where
  "retryablePatterns =
     [''timeout'', ''connection refused'', ''connection reset'', ''temporary failure'',
      ''service unavailable'', ''throttling'', ''rate exceeded'', ''RequestLimitExceeded'',
      ''ThrottlingException'']"

text \<open>The \<open>for ... range retryablePatterns\<close> loop: true at the first pattern that matches.\<close>

primrec anyPattern :: "string \<Rightarrow> string list \<Rightarrow> bool" where
  "anyPattern errStr [] = False"
| "anyPattern errStr (pattern # rest) =
     (if contains errStr pattern then True else anyPattern errStr rest)"

text \<open>An \<open>error\<close> value is \<open>nil\<close> (\<open>None\<close>) or carries its message \<open>err.Error()\<close>.\<close>

definition IsRetryableError :: "string option \<Rightarrow> bool" where
  "IsRetryableError err =
     (case err of None \<Rightarrow> False | Some errStr \<Rightarrow> anyPattern errStr retryablePatterns)"

text \<open>
  What the doc comment of \<open>contains\<close> announces (``checks if a string contains a
  substring (case-insensitive)''), for comparison with the code.
\<close>

definition toLowerChar :: "char \<Rightarrow> char" where
  "toLowerChar c =
     (if 65 \<le> (of_char c :: nat) \<and> (of_char c :: nat) \<le> 90
      then char_of ((of_char c :: nat) + 32) else c)"

definition containsFold :: "string \<Rightarrow> string \<Rightarrow> bool" where
  "containsFold s substr = Contains (map toLowerChar s) (map toLowerChar substr)"

primrec anyPatternFold :: "string \<Rightarrow> string list \<Rightarrow> bool" where
  "anyPatternFold errStr [] = False"
| "anyPatternFold errStr (pattern # rest) =
     (if containsFold errStr pattern then True else anyPatternFold errStr rest)"

section \<open>Provider detection (\<open>DetectProvider\<close>)\<close>

record Config =
  AnthropicAPIKey :: string
  BaseURL :: string
  ReveniumAPIKey :: string
  ReveniumBaseURL :: string
  ReveniumOrgID :: string
  ReveniumProductID :: string
  AWSAccessKeyID :: string
  AWSSecretAccessKey :: string
  AWSRegion :: string
  AWSProfile :: string
  AWSModelARNBase :: string
  BedrockDisabled :: bool
  LogLevel :: string
  VerboseStartup :: bool
  CapturePrompts :: bool

datatype Provider = ProviderAnthropic | ProviderBedrock

text \<open>The argument is a \<open>*Config\<close>: \<open>None\<close> is the nil pointer.\<close>

definition DetectProvider :: "Config option \<Rightarrow> Provider" where
  "DetectProvider cfg =
     (case cfg of
        None \<Rightarrow> ProviderAnthropic
      | Some c \<Rightarrow>
          if BedrockDisabled c then ProviderAnthropic
          else if AWSAccessKeyID c \<noteq> [] \<and> AWSSecretAccessKey c \<noteq> [] then ProviderBedrock
          else if BaseURL c \<noteq> [] \<and> Contains (BaseURL c) ''amazonaws.com'' then ProviderBedrock
          else ProviderAnthropic)"

text \<open>The credential sources \<open>loadAWSConfig\<close> distinguishes, in its order.\<close>

datatype CredentialSource = StaticCredentials | SharedConfigProfile | DefaultChain

definition loadAWSConfig_source :: "Config \<Rightarrow> CredentialSource" where
  "loadAWSConfig_source c =
     (if AWSAccessKeyID c \<noteq> [] \<and> AWSSecretAccessKey c \<noteq> [] then StaticCredentials
      else if AWSProfile c \<noteq> [] then SharedConfigProfile
      else DefaultChain)"

text \<open>A configuration with every field empty, used to build concrete ones.\<close>

definition emptyConfig :: Config where
  "emptyConfig =
     \<lparr>AnthropicAPIKey = [], BaseURL = [], ReveniumAPIKey = [], ReveniumBaseURL = [],
      ReveniumOrgID = [], ReveniumProductID = [], AWSAccessKeyID = [],
      AWSSecretAccessKey = [], AWSRegion = [], AWSProfile = [], AWSModelARNBase = [],
      BedrockDisabled = False, LogLevel = [], VerboseStartup = False,
      CapturePrompts = False\<rparr>"

section \<open>Model identifiers (\<open>GetBedrockModelID\<close>, \<open>ConvertBedrockARNToAnthropicModel\<close>)\<close>

text \<open>
  \<open>strings.Split\<close> for a non-empty separator: the pieces between the non-overlapping
  occurrences of \<open>sep\<close>, found left to right.  \<open>acc\<close> holds the current piece, reversed.
  (The source only splits at \<open>/\<close>, \<open>-v\<close> and \<open>:\<close>; Go's special case of an empty
  separator is not modelled, the function then returns the string whole.)
\<close>

function splitAux :: "string \<Rightarrow> string \<Rightarrow> string \<Rightarrow> string list" where
  "splitAux sep acc [] = [rev acc]"
| "splitAux sep acc (c # cs) =
     (if sep \<noteq> [] \<and> prefix sep (c # cs)
      then rev acc # splitAux sep [] (drop (length sep) (c # cs))
      else splitAux sep (c # acc) cs)"
  by pat_completeness auto
termination
  by (relation "measure (\<lambda>(sep, acc, s). length s)") auto

definition Split :: "string \<Rightarrow> string \<Rightarrow> string list" where
  "Split s sep = splitAux sep [] s"

text \<open>\<open>strings.Split(s, sep)[0]\<close>; \<open>Split\<close> never returns an empty slice.\<close>

definition SplitFirst :: "string \<Rightarrow> string \<Rightarrow> string" where
  "SplitFirst s sep = (case Split s sep of [] \<Rightarrow> [] | p # _ \<Rightarrow> p)"

definition isLowerAZ :: "char \<Rightarrow> bool" where
  "isLowerAZ c = (97 \<le> (of_char c :: nat) \<and> (of_char c :: nat) \<le> 122)"

definition isDigit :: "char \<Rightarrow> bool" where
  "isDigit c = (48 \<le> (of_char c :: nat) \<and> (of_char c :: nat) \<le> 57)"

text \<open>
  The regular expression of \<open>ValidateBedrockBaseARN\<close>,
  \<^verbatim>\<open>^arn:aws:bedrock:[a-z]{2}-[a-z]+-\d+:\d{12}$\<close>,
  as a matcher.  Each repetition is followed by a character outside its class, so the
  longest run is the only candidate and no backtracking is needed.
\<close>

definition arnAccount :: "string \<Rightarrow> bool" where
  "arnAccount s = (length s = 12 \<and> list_all isDigit s)"

definition arnNumber :: "string \<Rightarrow> bool" where
  "arnNumber s =
     (takeWhile isDigit s \<noteq> [] \<and>
      (case dropWhile isDigit s of [] \<Rightarrow> False | c # rest \<Rightarrow> c = CHR '':'' \<and> arnAccount rest))"

definition arnRegionName :: "string \<Rightarrow> bool" where
  "arnRegionName s =
     (takeWhile isLowerAZ s \<noteq> [] \<and>
      (case dropWhile isLowerAZ s of [] \<Rightarrow> False | c # rest \<Rightarrow> c = CHR ''-'' \<and> arnNumber rest))"

definition arnRegion :: "string \<Rightarrow> bool" where
  "arnRegion s =
     (length (take 2 s) = 2 \<and> list_all isLowerAZ (take 2 s) \<and>
      (case drop 2 s of [] \<Rightarrow> False | c # rest \<Rightarrow> c = CHR ''-'' \<and> arnRegionName rest))"

definition arnPattern :: "string \<Rightarrow> bool" where
  "arnPattern s = (prefix ''arn:aws:bedrock:'' s \<and> arnRegion (drop 16 s))"

datatype ModelError =
    ARNEmpty
  | ARNTooLong string
  | ARNTooShort string
  | ARNIncorrectFormat string
  | ModelNameRequired
  | UnrecognizedFormat string

text \<open>\<open>None\<close> is the nil error.\<close>

definition ValidateBedrockBaseARN :: "string \<Rightarrow> ModelError option" where
  "ValidateBedrockBaseARN arnBase =
     (if arnBase = [] then Some ARNEmpty
      else if \<not> arnPattern arnBase then
        (if Contains arnBase ''inference-profile'' \<or> Contains arnBase ''anthropic''
           then Some (ARNTooLong arnBase)
         else if length (Split arnBase '':'') < 5 then Some (ARNTooShort arnBase)
         else Some (ARNIncorrectFormat arnBase))
      else None)"

definition ConstructFullBedrockARN :: "string \<Rightarrow> string \<Rightarrow> ModelError + string" where
  "ConstructFullBedrockARN arnBase modelName =
     (case ValidateBedrockBaseARN arnBase of
        Some err \<Rightarrow> Inl err
      | None \<Rightarrow>
          if modelName = [] then Inl ModelNameRequired
          else Inr (arnBase @ '':inference-profile/us.anthropic.'' @ modelName @ ''-v1:0''))"

text \<open>
  When the full ARN cannot be built the source logs a warning and continues with the
  standard format.
\<close>

definition standardBedrockID :: "string \<Rightarrow> string" where
  "standardBedrockID modelName =
     (if prefix ''anthropic.'' modelName then modelName else ''anthropic.'' @ modelName)"

definition GetBedrockModelID :: "string \<Rightarrow> Config option \<Rightarrow> string" where
  "GetBedrockModelID modelName config =
     (if prefix ''arn:aws:bedrock:'' modelName then modelName
      else case config of
        None \<Rightarrow> standardBedrockID modelName
      | Some c \<Rightarrow>
          if AWSModelARNBase c \<noteq> [] then
            (case ConstructFullBedrockARN (AWSModelARNBase c) modelName of
               Inl err \<Rightarrow> standardBedrockID modelName
             | Inr fullARN \<Rightarrow> fullARN)
          else standardBedrockID modelName)"

text \<open>The two version-suffix cuts: \<open>strings.Split(m, "-v")[0]\<close>, then \<open>strings.Split(m, ":")[0]\<close>.\<close>

definition stripVersion :: "string \<Rightarrow> string" where
  "stripVersion m = SplitFirst (SplitFirst m ''-v'') '':''"

definition ConvertBedrockARNToAnthropicModel :: "string \<Rightarrow> ModelError + string" where
  "ConvertBedrockARNToAnthropicModel bedrockModel =
     (if \<not> Contains bedrockModel ''arn:aws:bedrock'' \<and> \<not> prefix ''anthropic.'' bedrockModel
         \<and> \<not> Contains bedrockModel ''inference-profile''
      then Inr bedrockModel
      else if Contains bedrockModel ''arn:aws:bedrock''
              \<and> 2 \<le> length (Split bedrockModel ''/'')
      then Inr (stripVersion
             (TrimPrefix (TrimPrefix (TrimPrefix (last (Split bedrockModel ''/''))
                ''us.anthropic.'') ''eu.anthropic.'') ''ap.anthropic.''))
      else if prefix ''anthropic.'' bedrockModel
      then Inr (stripVersion (TrimPrefix bedrockModel ''anthropic.''))
      else Inl (UnrecognizedFormat bedrockModel))"

text \<open>
  The source has no list of supported model names: both conversions accept any string.
  A direct-API model name is taken to be a plain name, one that carries none of the
  marks the conversions look for: no \<open>/\<close>, no \<open>:\<close>, no version mark \<open>-v\<close>, and
  none of the gateway prefixes \<open>anthropic.\<close>, \<open>eu.anthropic.\<close> and \<open>ap.anthropic.\<close>
  (a name without \<open>:\<close> cannot start with \<open>arn:aws:bedrock:\<close>).
\<close>

definition plainModelName :: "string \<Rightarrow> bool" where
  "plainModelName m =
     (CHR ''/'' \<notin> set m \<and> CHR '':'' \<notin> set m \<and> \<not> Contains m ''-v''
      \<and> \<not> prefix ''anthropic.'' m \<and> \<not> prefix ''eu.anthropic.'' m
      \<and> \<not> prefix ''ap.anthropic.'' m)"

section \<open>Request parameters\<close>

text \<open>
  The parts of the SDK's \<open>MessageNewParams\<close> the middleware reads.  A content block is a
  union; the image source is a union of an inline base64 payload and a URL, and both
  pointers may be nil.
\<close>

datatype ImageSource = Base64Source string string | URLSource string | NoSource

datatype ContentBlock = TextBlock string | ImageBlock ImageSource | OtherBlock

record MessageParam =
  Role :: string
  Content :: "ContentBlock list"

record MessageNewParams =
  Model :: string
  Messages :: "MessageParam list"
  System :: "string list"

section \<open>Input-token estimate (\<open>estimateInputTokens\<close>)\<close>

text \<open>
  The loop adds \<open>len(msg.Content) * 10\<close> per message, where \<open>msg.Content\<close> is the slice of
  content blocks.  Go's \<open>int\<close> cannot overflow here (a slice length times ten), so the
  counters are unbounded integers; the division is on non-negative operands.
\<close>

primrec countChars :: "MessageParam list \<Rightarrow> int \<Rightarrow> int" where
  "countChars [] totalChars = totalChars"
| "countChars (msg # rest) totalChars =
     countChars rest (totalChars + int (length (Content msg)) * 10)"

definition estimateInputTokens :: "MessageNewParams \<Rightarrow> int" where
  "estimateInputTokens params =
     (let estimatedTokens = countChars (Messages params) 0 div 4
      in if estimatedTokens < 1 then 10 else estimatedTokens)"

text \<open>For the statements: the number of content blocks and of text characters of a request.\<close>

definition blockCount :: "MessageNewParams \<Rightarrow> nat" where
  "blockCount params = sum_list (map (\<lambda>msg. length (Content msg)) (Messages params))"

primrec blockChars :: "ContentBlock \<Rightarrow> nat" where
  "blockChars (TextBlock t) = length t"
| "blockChars (ImageBlock src) = 0"
| "blockChars OtherBlock = 0"

definition textChars :: "MessageNewParams \<Rightarrow> nat" where
  "textChars params =
     sum_list (map (\<lambda>msg. sum_list (map blockChars (Content msg))) (Messages params))"

section \<open>Retry with backoff (\<open>RetryWithBackoff\<close>)\<close>

text \<open>
  Durations are \<open>time.Duration\<close> values, counted in nanoseconds.  The multiplier is a
  \<open>float64\<close> in the source; it is modelled as a rational, and the conversion back to a
  duration truncates towards zero as Go's does.  The model is the source's computation
  where \<open>float64\<close> arithmetic is exact and the product fits an \<open>int64\<close>: the rounding of
  \<open>float64\<close> is not modelled, nor is the conversion of a product outside the range of
  \<open>int64\<close>, whose result Go leaves to the implementation.  For the default configuration
  (multiplier 2, at most three steps from 100 ms, capped at 5 s) the products are
  integers far below \<open>2^53\<close>, where both are exact; the statements below are about that
  configuration only.
\<close>

record RetryConfig =
  MaxRetries :: int
  InitialBackoff :: int
  MaxBackoff :: int
  BackoffMultiplier :: rat

definition millisecond :: int where
  "millisecond = 1000000"

definition second :: int where
  "second = 1000000000"

definition DefaultRetryConfig :: RetryConfig where
  "DefaultRetryConfig =
     \<lparr>MaxRetries = 3, InitialBackoff = 100 * millisecond, MaxBackoff = 5 * second,
      BackoffMultiplier = 2\<rparr>"

definition truncateRat :: "rat \<Rightarrow> int" where
  "truncateRat x = (if 0 \<le> x then \<lfloor>x\<rfloor> else \<lceil>x\<rceil>)"

definition nextBackoff :: "RetryConfig \<Rightarrow> int \<Rightarrow> int" where
  "nextBackoff cfg backoff =
     (let b = truncateRat (of_int backoff * BackoffMultiplier cfg)
      in if MaxBackoff cfg < b then MaxBackoff cfg else b)"

text \<open>
  The errors \<open>RetryWithBackoff\<close> returns: \<open>ctx.Err()\<close>, the error of \<open>fn\<close> as it is,
  or the last error wrapped in ``max retries exceeded''.
\<close>

datatype RetryError = CtxErr | FnErr string | MaxRetriesExceeded "string option"

text \<open>
  What a run leaves behind: the returned error (\<open>None\<close> is nil), how often \<open>fn\<close> was
  invoked, the waits between the invocations in order, and the state \<open>fn\<close> ended in.
\<close>

record 's RetryRun =
  retErr :: "RetryError option"
  fnCalls :: nat
  waits :: "int list"
  fnState :: 's

text \<open>
  \<open>fn\<close> is a closure over mutable variables: a function from the state it captures to
  its error and the new state.  The context is observed at the two \<open>select\<close> statements
  of each iteration; \<open>ctxDone k\<close> says whether the \<open>k\<close>-th observation finds \<open>ctx.Done()\<close>
  closed (during the wait this resolves the race with the timer in favour of the
  context).  The loop variables \<open>attempt\<close>, \<open>backoff\<close> and \<open>lastErr\<close> are arguments.
\<close>

function RetryLoop ::
  "RetryConfig \<Rightarrow> (nat \<Rightarrow> bool) \<Rightarrow> ('s \<Rightarrow> string option \<times> 's) \<Rightarrow> int \<Rightarrow> int \<Rightarrow>
   string option \<Rightarrow> nat \<Rightarrow> nat \<Rightarrow> int list \<Rightarrow> 's \<Rightarrow> 's RetryRun" where
  "RetryLoop cfg ctxDone fn attempt backoff lastErr polls calls ws s =
     (if attempt \<le> MaxRetries cfg then
        if ctxDone polls
        then \<lparr>retErr = Some CtxErr, fnCalls = calls, waits = ws, fnState = s\<rparr>
        else
          (case fn s of
             (None, s') \<Rightarrow> \<lparr>retErr = None, fnCalls = Suc calls, waits = ws, fnState = s'\<rparr>
           | (Some err, s') \<Rightarrow>
               if \<not> IsRetryableError (Some err)
               then \<lparr>retErr = Some (FnErr err), fnCalls = Suc calls, waits = ws, fnState = s'\<rparr>
               else if attempt < MaxRetries cfg then
                 (if ctxDone (Suc polls)
                  then \<lparr>retErr = Some CtxErr, fnCalls = Suc calls, waits = ws, fnState = s'\<rparr>
                  else RetryLoop cfg ctxDone fn (attempt + 1) (nextBackoff cfg backoff)
                         (Some err) (Suc (Suc polls)) (Suc calls) (ws @ [backoff]) s')
               else RetryLoop cfg ctxDone fn (attempt + 1) backoff (Some err) (Suc polls)
                      (Suc calls) ws s')
      else \<lparr>retErr = Some (MaxRetriesExceeded lastErr), fnCalls = calls, waits = ws,
             fnState = s\<rparr>)"
  by pat_completeness auto
termination
  by (relation "measure (\<lambda>(cfg, ctxDone, fn, attempt, backoff, lastErr, polls, calls, ws, s).
        nat (MaxRetries cfg + 1 - attempt))") auto

definition RetryWithBackoff ::
  "(nat \<Rightarrow> bool) \<Rightarrow> RetryConfig \<Rightarrow> ('s \<Rightarrow> string option \<times> 's) \<Rightarrow> 's \<Rightarrow> 's RetryRun" where
  "RetryWithBackoff ctxDone cfg fn s =
     RetryLoop cfg ctxDone fn 0 (InitialBackoff cfg) None 0 0 [] s"

section \<open>Metering dispatch (\<open>sendMeteringWithRetry\<close>, \<open>sendMeteringRequest\<close>)\<close>

datatype ErrorKind = ConfigKind | ValidationKind | NetworkKind | MeteringKind

text \<open>
  Go errors: a plain message, \<open>fmt.Errorf\<close> with a wrapped error (\<open>%w\<close>), or one of the
  middleware's typed errors with its message and cause.
\<close>

datatype GoError =
    ErrorString string
  | Errorf string "GoError option"
  | ReveniumError ErrorKind string "GoError option"

text \<open>
  Modelled from the spec: the constructors \<open>NewConfigError\<close>, \<open>NewValidationError\<close>,
  \<open>NewNetworkError\<close>, \<open>NewMeteringError\<close> and the test \<open>IsValidationError\<close> live in a file
  of the package that is not among the sources.  Following the error taxonomy of the
  specification, each constructor builds an error of its kind, and \<open>IsValidationError\<close>
  recognises the errors of the validation kind.  (The errors it is applied to here are
  the direct results of \<open>sendMeteringRequest\<close>, never wrapped ones.)
\<close>

definition NewConfigError :: "string \<Rightarrow> GoError option \<Rightarrow> GoError" where
  "NewConfigError msg cause = ReveniumError ConfigKind msg cause"

definition NewValidationError :: "string \<Rightarrow> GoError option \<Rightarrow> GoError" where
  "NewValidationError msg cause = ReveniumError ValidationKind msg cause"

definition NewNetworkError :: "string \<Rightarrow> GoError option \<Rightarrow> GoError" where
  "NewNetworkError msg cause = ReveniumError NetworkKind msg cause"

definition NewMeteringError :: "string \<Rightarrow> GoError option \<Rightarrow> GoError" where
  "NewMeteringError msg cause = ReveniumError MeteringKind msg cause"

primrec IsValidationError :: "GoError \<Rightarrow> bool" where
  "IsValidationError (ErrorString msg) = False"
| "IsValidationError (Errorf msg cause) = False"
| "IsValidationError (ReveniumError kind msg cause) = (kind = ValidationKind)"

definition isValidationError :: "GoError option \<Rightarrow> bool" where
  "isValidationError err = (case err of None \<Rightarrow> False | Some e \<Rightarrow> IsValidationError e)"

text \<open>The verb \<open>%d\<close> of \<open>fmt\<close>: decimal digits, with a sign for negative numbers.\<close>

definition digitChar :: "nat \<Rightarrow> char" where
  "digitChar d = ''0123456789'' ! d"

function showNat :: "nat \<Rightarrow> string" where
  "showNat n =
     (if n < 10 then [digitChar n] else showNat (n div 10) @ [digitChar (n mod 10)])"
  by pat_completeness auto
termination
  by (relation "measure id") auto

definition showInt :: "int \<Rightarrow> string" where
  "showInt i = (if i < 0 then CHR ''-'' # showNat (nat (- i)) else showNat (nat i))"

text \<open>
  What \<open>client.Do\<close> gives: a response with its status code and body, or a transport
  error (connection failure, timeout of the 10 s client).
\<close>

datatype HTTPResult = HTTPResponse int string | HTTPFailure GoError

text \<open>
  One request, to the base URL (or the default one) followed by the fixed path.  The
  surroundings are parameters: \<open>jsonMarshal\<close> (\<open>json.Marshal\<close>),
  \<open>newRequest\<close> (\<open>http.NewRequest\<close>, which rejects a malformed URL; \<open>None\<close> is success),
  and the collector: \<open>collector n url body\<close> is the outcome of the \<open>n\<close>-th request sent
  (counted from 0).  The result is the error and the number of requests sent so far.
\<close>

definition meteringURL :: "Config \<Rightarrow> string" where
  "meteringURL c =
     (if ReveniumBaseURL c = [] then ''https://api.revenium.ai'' else ReveniumBaseURL c)
       @ ''/meter/v2/ai/completions''"

definition sendMeteringRequest ::
  "Config option \<Rightarrow> ('p \<Rightarrow> GoError + string) \<Rightarrow> (string \<Rightarrow> GoError option) \<Rightarrow>
   (nat \<Rightarrow> string \<Rightarrow> string \<Rightarrow> HTTPResult) \<Rightarrow> 'p \<Rightarrow> nat \<Rightarrow> GoError option \<times> nat" where
  "sendMeteringRequest config jsonMarshal newRequest collector payload n =
     (case config of
        None \<Rightarrow> (Some (NewConfigError ''metering not configured'' None), n)
      | Some c \<Rightarrow>
          if ReveniumAPIKey c = [] then (Some (NewConfigError ''metering not configured'' None), n)
          else
            let url = meteringURL c
            in case jsonMarshal payload of
                 Inl e \<Rightarrow>
                   (Some (NewMeteringError ''failed to marshal metering payload'' (Some e)), n)
               | Inr jsonData \<Rightarrow>
                   (case newRequest url of
                      Some e \<Rightarrow>
                        (Some (NewMeteringError ''failed to create metering request'' (Some e)), n)
                    | None \<Rightarrow>
                        (case collector n url jsonData of
                           HTTPFailure e \<Rightarrow>
                             (Some (NewNetworkError ''metering request failed'' (Some e)), Suc n)
                         | HTTPResponse status body \<Rightarrow>
                             if status < 200 \<or> 300 \<le> status then
                               (if 400 \<le> status \<and> status < 500 then
                                  (Some (NewValidationError
                                     (''metering API returned '' @ showInt status @ '': '' @ body)
                                     None), Suc n)
                                else
                                  (Some (NewMeteringError ''metering API error''
                                     (Some (ErrorString
                                        (''status '' @ showInt status @ '': '' @ body)))), Suc n))
                             else (None, Suc n))))"

definition maxRetries :: int where
  "maxRetries = 3"

definition initialBackoff :: int where
  "initialBackoff = 100 * millisecond"

record MeteringRun =
  meterErr :: "GoError option"
  sends :: nat
  sleeps :: "int list"

text \<open>
  The loop of \<open>sendMeteringWithRetry\<close>, with its variables \<open>attempt\<close>, \<open>backoff\<close> and
  \<open>lastErr\<close>; \<open>n\<close> counts the requests sent and \<open>sl\<close> collects the \<open>time.Sleep\<close> calls.
\<close>

function meteringLoop ::
  "Config option \<Rightarrow> ('p \<Rightarrow> GoError + string) \<Rightarrow> (string \<Rightarrow> GoError option) \<Rightarrow>
   (nat \<Rightarrow> string \<Rightarrow> string \<Rightarrow> HTTPResult) \<Rightarrow> 'p \<Rightarrow> int \<Rightarrow> int \<Rightarrow> GoError option \<Rightarrow>
   nat \<Rightarrow> int list \<Rightarrow> MeteringRun" where
  "meteringLoop config jsonMarshal newRequest collector payload attempt backoff lastErr n sl =
     (if attempt < maxRetries then
        (let sl' = (if 0 < attempt then sl @ [backoff] else sl);
             backoff' = (if 0 < attempt then backoff * 2 else backoff)
         in case sendMeteringRequest config jsonMarshal newRequest collector payload n of
              (None, n') \<Rightarrow> \<lparr>meterErr = None, sends = n', sleeps = sl'\<rparr>
            | (Some err, n') \<Rightarrow>
                if isValidationError (Some err)
                then \<lparr>meterErr = Some err, sends = n', sleeps = sl'\<rparr>
                else meteringLoop config jsonMarshal newRequest collector payload
                       (attempt + 1) backoff' (Some err) n' sl')
      else \<lparr>meterErr = Some (NewMeteringError ''metering failed after %d retries''
                 (Some (Errorf (''retries: '' @ showInt maxRetries @ '', last error: '') lastErr))),
             sends = n, sleeps = sl\<rparr>)"
  by pat_completeness auto
termination
  by (relation "measure (\<lambda>(config, jsonMarshal, newRequest, collector, payload, attempt,
        backoff, lastErr, n, sl). nat (maxRetries - attempt))") auto

definition sendMeteringWithRetry ::
  "Config option \<Rightarrow> ('p \<Rightarrow> GoError + string) \<Rightarrow> (string \<Rightarrow> GoError option) \<Rightarrow>
   (nat \<Rightarrow> string \<Rightarrow> string \<Rightarrow> HTTPResult) \<Rightarrow> 'p \<Rightarrow> MeteringRun" where
  "sendMeteringWithRetry config jsonMarshal newRequest collector payload =
     meteringLoop config jsonMarshal newRequest collector payload 0 initialBackoff None 0 []"

text \<open>The outcomes the claim calls transient: a status of 500 or above, or a transport error.\<close>

primrec transient :: "HTTPResult \<Rightarrow> bool" where
  "transient (HTTPResponse status body) = (500 \<le> status)"
| "transient (HTTPFailure e) = True"


section \<open>UTF-8 (Go's \<open>unicode/utf8\<close>)\<close>

text \<open>
  The prompt extractor relies on \<open>utf8.ValidString\<close>, \<open>utf8.RuneLen\<close> and the conversions
  \<open>[]rune(s)\<close> and \<open>string(r)\<close> of the Go library.  They are modelled after the library:
  the byte ranges are those of its tables \<open>first\<close> and \<open>acceptRanges\<close>, and the masks and
  shifts of the code-point value are written with \<open>mod\<close>, \<open>div\<close> and \<open>*\<close>.  A byte is
  the numeric value of a character; a rune is a natural number (the decoder never
  yields a negative one).
\<close>

definition byteOf :: "char \<Rightarrow> nat" where
  "byteOf c = of_char c"

definition inRange :: "nat \<Rightarrow> nat \<Rightarrow> char \<Rightarrow> bool" where
  "inRange lo hi c = (lo \<le> byteOf c \<and> byteOf c \<le> hi)"

text \<open>The accepted range of the second byte, by leading byte.\<close>

definition acceptLo :: "nat \<Rightarrow> nat" where
  "acceptLo b0 = (if b0 = 0xE0 then 0xA0 else if b0 = 0xF0 then 0x90 else 0x80)"

definition acceptHi :: "nat \<Rightarrow> nat" where
  "acceptHi b0 = (if b0 = 0xED then 0x9F else if b0 = 0xF4 then 0x8F else 0xBF)"

text \<open>
  The length of the well-formed encoded sequence at the head of a string, or 0 when
  the string is empty or does not start with one.
\<close>

fun seqLen :: "string \<Rightarrow> nat" where
  "seqLen [] = 0"
| "seqLen (c0 # rest) =
     (if byteOf c0 < 0x80 then 1
      else if 0xC2 \<le> byteOf c0 \<and> byteOf c0 \<le> 0xDF then
        (case rest of
           c1 # _ \<Rightarrow> if inRange 0x80 0xBF c1 then 2 else 0
         | [] \<Rightarrow> 0)
      else if 0xE0 \<le> byteOf c0 \<and> byteOf c0 \<le> 0xEF then
        (case rest of
           c1 # c2 # _ \<Rightarrow>
             if inRange (acceptLo (byteOf c0)) (acceptHi (byteOf c0)) c1 \<and> inRange 0x80 0xBF c2
             then 3 else 0
         | _ \<Rightarrow> 0)
      else if 0xF0 \<le> byteOf c0 \<and> byteOf c0 \<le> 0xF4 then
        (case rest of
           c1 # c2 # c3 # _ \<Rightarrow>
             if inRange (acceptLo (byteOf c0)) (acceptHi (byteOf c0)) c1 \<and> inRange 0x80 0xBF c2
                \<and> inRange 0x80 0xBF c3
             then 4 else 0
         | _ \<Rightarrow> 0)
      else 0)"

text \<open>\<open>utf8.ValidString\<close>: the string is a chain of well-formed sequences.\<close>

function ValidString :: "string \<Rightarrow> bool" where
  "ValidString s =
     (if s = [] then True
      else if seqLen s = 0 then False
      else ValidString (drop (seqLen s) s))"
  by pat_completeness auto
termination
  by (relation "measure length") auto

definition RuneError :: nat where
  "RuneError = 0xFFFD"

text \<open>The code point of a well-formed sequence of 1 to 4 bytes.\<close>

fun runeValue :: "string \<Rightarrow> nat" where
  "runeValue [c0] = byteOf c0"
| "runeValue [c0, c1] = (byteOf c0 mod 32) * 64 + byteOf c1 mod 64"
| "runeValue [c0, c1, c2] =
     (byteOf c0 mod 16) * 4096 + (byteOf c1 mod 64) * 64 + byteOf c2 mod 64"
| "runeValue [c0, c1, c2, c3] =
     (byteOf c0 mod 8) * 262144 + (byteOf c1 mod 64) * 4096 + (byteOf c2 mod 64) * 64
       + byteOf c3 mod 64"
| "runeValue _ = RuneError"

text \<open>\<open>[]rune(s)\<close>: a byte that starts no well-formed sequence yields \<open>RuneError\<close>.\<close>

function decodeRunes :: "string \<Rightarrow> nat list" where
  "decodeRunes s =
     (if s = [] then []
      else if seqLen s = 0 then RuneError # decodeRunes (tl s)
      else runeValue (take (seqLen s) s) # decodeRunes (drop (seqLen s) s))"
  by pat_completeness auto
termination
  by (relation "measure length") auto

text \<open>\<open>utf8.RuneCountInString\<close>: the number of characters (runes) of a string.\<close>

definition RuneCountInString :: "string \<Rightarrow> nat" where
  "RuneCountInString s = length (decodeRunes s)"

definition surrogate :: "nat \<Rightarrow> bool" where
  "surrogate r = (0xD800 \<le> r \<and> r \<le> 0xDFFF)"

text \<open>\<open>utf8.RuneLen\<close>; \<open>-1\<close> when the rune is not a valid value to encode.\<close>

definition RuneLen :: "nat \<Rightarrow> int" where
  "RuneLen r =
     (if r < 0x80 then 1
      else if r < 0x800 then 2
      else if surrogate r then - 1
      else if r \<le> 0xFFFF then 3
      else if r \<le> 0x10FFFF then 4
      else - 1)"

definition encode3 :: "nat \<Rightarrow> string" where
  "encode3 r =
     [char_of (0xE0 + r div 4096), char_of (0x80 + (r div 64) mod 64), char_of (0x80 + r mod 64)]"

text \<open>\<open>string(r)\<close>: the encoding of the rune, of \<open>RuneError\<close> when it has none.\<close>

definition encodeRune :: "nat \<Rightarrow> string" where
  "encodeRune r =
     (if r < 0x80 then [char_of r]
      else if r < 0x800 then [char_of (0xC0 + r div 64), char_of (0x80 + r mod 64)]
      else if surrogate r \<or> 0x10FFFF < r then encode3 RuneError
      else if r \<le> 0xFFFF then encode3 r
      else [char_of (0xF0 + r div 262144), char_of (0x80 + (r div 4096) mod 64),
            char_of (0x80 + (r div 64) mod 64), char_of (0x80 + r mod 64)])"

section \<open>Prompt extraction (\<open>prompt_extractor.go\<close>)\<close>

text \<open>
  The loop that moves \<open>maxBytes\<close> back while the byte at that index is a continuation
  byte (\<open>10xxxxxx\<close>).
\<close>

fun backUp :: "string \<Rightarrow> nat \<Rightarrow> nat" where
  "backUp s 0 = 0"
| "backUp s (Suc k) =
     (if Suc k < length s \<and> byteOf (s ! Suc k) AND 0xC0 = 0x80 then backUp s k else Suc k)"

text \<open>The fallback loop: append the runes while they fit in \<open>maxBytes\<close>.\<close>

fun appendRunes :: "nat list \<Rightarrow> nat \<Rightarrow> string \<Rightarrow> string" where
  "appendRunes [] maxBytes result = result"
| "appendRunes (r # runes) maxBytes result =
     (if int maxBytes < int (length result) + RuneLen r then result
      else appendRunes runes maxBytes (result @ encodeRune r))"

text \<open>
  \<open>maxBytes\<close> is an \<open>int\<close> in the source; every caller passes a positive constant (the
  limit minus the length of the marker), so it is a natural number here.
\<close>

definition truncateUTF8Safe :: "string \<Rightarrow> nat \<Rightarrow> string" where
  "truncateUTF8Safe s maxBytes =
     (if length s \<le> maxBytes then s
      else
        let maxBytes' = backUp s maxBytes;
            result = take maxBytes' s
        in if \<not> ValidString result then appendRunes (decodeRunes s) maxBytes' [] else result)"

definition MaxPromptLength :: nat where
  "MaxPromptLength = 50000"

definition TruncationMarker :: string where
  "TruncationMarker = ''...[TRUNCATED]''"

record PromptData =
  SystemPrompt :: string
  InputMessages :: string
  OutputResponse :: string
  PromptsTruncated :: bool

definition emptyPromptData :: "bool \<Rightarrow> PromptData" where
  "emptyPromptData promptsTruncated =
     \<lparr>SystemPrompt = [], InputMessages = [], OutputResponse = [],
      PromptsTruncated = promptsTruncated\<rparr>"

text \<open>The truncation step shared by the extractors.\<close>

definition capContent :: "string \<Rightarrow> PromptData \<Rightarrow> PromptData" where
  "capContent content data =
     (if MaxPromptLength < length content then
        data\<lparr>OutputResponse :=
                truncateUTF8Safe content (MaxPromptLength - length TruncationMarker)
                  @ TruncationMarker,
              PromptsTruncated := True\<rparr>
      else data\<lparr>OutputResponse := content\<rparr>)"

text \<open>For the statements: a captured text without the marker at its end.\<close>

definition capturedBody :: "string \<Rightarrow> string" where
  "capturedBody out = take (length out - length TruncationMarker) out"

definition ExtractStreamingResponseContent :: "string \<Rightarrow> bool \<Rightarrow> PromptData" where
  "ExtractStreamingResponseContent accumulatedContent promptsTruncated =
     (if accumulatedContent = [] then emptyPromptData promptsTruncated
      else capContent accumulatedContent (emptyPromptData promptsTruncated))"

fun concatenateTextParts :: "string list \<Rightarrow> string" where
  "concatenateTextParts [] = []"
| "concatenateTextParts [p] = p"
| "concatenateTextParts (p # q # parts) = p @ CHR 0x0A # concatenateTextParts (q # parts)"

text \<open>
  The response of the SDK: its content blocks have a type and a text.  A nil response
  is \<open>None\<close>.
\<close>

record ContentBlockUnion =
  blockType :: string
  blockText :: string

type_synonym int64 = "64 word"

record Usage =
  InputTokens :: int64
  OutputTokens :: int64

record Message =
  ModelOf :: string
  StopReason :: string
  UsageOf :: Usage
  ContentOf :: "ContentBlockUnion list"

definition textPartsOf :: "ContentBlockUnion list \<Rightarrow> string list" where
  "textPartsOf blocks =
     map blockText (filter (\<lambda>b. blockType b = ''text'' \<and> blockText b \<noteq> []) blocks)"

definition ExtractResponseContent :: "Message option \<Rightarrow> bool \<Rightarrow> PromptData" where
  "ExtractResponseContent resp promptsTruncated =
     (case resp of
        None \<Rightarrow> emptyPromptData promptsTruncated
      | Some r \<Rightarrow>
          if ContentOf r = [] then emptyPromptData promptsTruncated
          else if textPartsOf (ContentOf r) = [] then emptyPromptData promptsTruncated
          else capContent (concatenateTextParts (textPartsOf (ContentOf r)))
                 (emptyPromptData promptsTruncated))"

text \<open>The text of a response, for the statements: its non-empty text blocks, joined.\<close>

definition responseText :: "Message option \<Rightarrow> string" where
  "responseText resp =
     (case resp of None \<Rightarrow> [] | Some r \<Rightarrow> concatenateTextParts (textPartsOf (ContentOf r)))"


section \<open>Vision detection\<close>

record VisionDetectionResult =
  HasVisionContent :: bool
  ImageCount :: int
  TotalImageSizeBytes :: int
  MediaTypes :: "string list"

primrec containsString :: "string list \<Rightarrow> string \<Rightarrow> bool" where
  "containsString [] val = False"
| "containsString (item # rest) val = (if item = val then True else containsString rest val)"

definition base64Padding :: "string \<Rightarrow> nat" where
  "base64Padding d =
     (if 0 < length d \<and> d ! (length d - 1) = CHR ''=''
      then (if 1 < length d \<and> d ! (length d - 2) = CHR ''='' then 2 else 1)
      else 0)"

definition processBase64ImageSource ::
  "string \<Rightarrow> string \<Rightarrow> VisionDetectionResult \<Rightarrow> VisionDetectionResult" where
  "processBase64ImageSource mediaType d result =
     (let result' =
        (if mediaType \<noteq> [] \<and> \<not> containsString (MediaTypes result) mediaType
         then result\<lparr>MediaTypes := MediaTypes result @ [mediaType]\<rparr> else result)
      in if d \<noteq> []
         then result'\<lparr>TotalImageSizeBytes := TotalImageSizeBytes result'
                  + (int (length d) - int (base64Padding d)) * 3 div 4\<rparr>
         else result')"

definition processImageBlock :: "ImageSource \<Rightarrow> VisionDetectionResult \<Rightarrow> VisionDetectionResult" where
  "processImageBlock src result =
     (let result' = result\<lparr>HasVisionContent := True, ImageCount := ImageCount result + 1\<rparr>
      in case src of
           Base64Source mediaType d \<Rightarrow> processBase64ImageSource mediaType d result'
         | URLSource u \<Rightarrow> result'
         | NoSource \<Rightarrow> result')"

primrec detectBlocks :: "ContentBlock list \<Rightarrow> VisionDetectionResult \<Rightarrow> VisionDetectionResult" where
  "detectBlocks [] result = result"
| "detectBlocks (block # rest) result =
     detectBlocks rest
       (case block of ImageBlock src \<Rightarrow> processImageBlock src result | _ \<Rightarrow> result)"

primrec detectMessages :: "MessageParam list \<Rightarrow> VisionDetectionResult \<Rightarrow> VisionDetectionResult" where
  "detectMessages [] result = result"
| "detectMessages (msg # rest) result = detectMessages rest (detectBlocks (Content msg) result)"

definition DetectVisionContent :: "MessageNewParams \<Rightarrow> VisionDetectionResult" where
  "DetectVisionContent p =
     detectMessages (Messages p)
       \<lparr>HasVisionContent = False, ImageCount = 0, TotalImageSizeBytes = 0, MediaTypes = []\<rparr>"

section \<open>The metering payload (\<open>buildMeteringPayload\<close>)\<close>

text \<open>
  The payload is a \<open>map[string]interface{}\<close>.  Its values are strings, integers,
  booleans, string slices and nested maps; \<open>VCaller\<close> stands for any other value a caller
  puts into the metadata.  Go's \<open>int\<close> is taken as 64 bits wide, like \<open>int64\<close>.
\<close>

datatype 'v Value =
    VString string
  | VInt64 int64
  | VBool bool
  | VStrings "string list"
  | VMap "(string \<times> 'v Value) list"
  | VCaller 'v

type_synonym 'v Payload = "string \<rightharpoonup> 'v Value"

text \<open>
  What the builder takes from its surroundings: the RFC 3339 rendering of a time (a
  time is counted in nanoseconds), the identifier \<open>generateRequestID\<close> makes from the
  clock, and the result of \<open>GetMiddlewareSource\<close>, whose source is not available.
\<close>

record BuildEnv =
  formatRFC3339 :: "int \<Rightarrow> string"
  requestID :: string
  middlewareSource :: string

text \<open>\<open>Duration.Milliseconds\<close>: integer division that truncates towards zero.\<close>

definition Milliseconds :: "int \<Rightarrow> int" where
  "Milliseconds d = (if 0 \<le> d then d div 1000000 else - ((- d) div 1000000))"

definition normalizeProviderName :: "string \<Rightarrow> string" where
  "normalizeProviderName p =
     (if p = ''AWS'' then ''Amazon Bedrock''
      else if p = ''Anthropic'' then ''Anthropic''
      else p)"

definition BuildVisionAttributes :: "VisionDetectionResult \<Rightarrow> (string \<times> 'v Value) list option" where
  "BuildVisionAttributes result =
     (if \<not> HasVisionContent result then None
      else Some [(''vision_image_count'', VInt64 (of_int (ImageCount result))),
                 (''vision_total_size_bytes'', VInt64 (of_int (TotalImageSizeBytes result))),
                 (''vision_media_types'', VStrings (MediaTypes result))])"

text \<open>The metadata keys copied into the payload, in the order of the source.\<close>

definition metadataKeys :: "string list" where
  "metadataKeys =
     [''organizationId'', ''productId'', ''taskType'', ''agent'', ''subscriptionId'',
      ''traceId'', ''subscriber'', ''taskId'', ''responseQualityScore'', ''transactionId'',
      ''traceType'', ''traceName'', ''environment'', ''region'', ''retryNumber'',
      ''credentialAlias'', ''parentTransactionId'', ''modelSource'', ''mediationLatency'',
      ''temperature'', ''systemFingerprint'', ''inputTokenCost'', ''outputTokenCost'',
      ''cacheCreationTokenCost'', ''cacheReadTokenCost'', ''totalCost'']"

text \<open>\<open>if v, ok := metadata[k]; ok { payload[k] = v }\<close>, key after key.\<close>

primrec copyKeys :: "'v Payload \<Rightarrow> string list \<Rightarrow> 'v Payload \<Rightarrow> 'v Payload" where
  "copyKeys md [] payload = payload"
| "copyKeys md (k # ks) payload =
     copyKeys md ks (case md k of None \<Rightarrow> payload | Some v \<Rightarrow> payload(k \<mapsto> v))"

definition addVision :: "MessageNewParams option \<Rightarrow> 'v Payload \<Rightarrow> 'v Payload" where
  "addVision ps payload =
     (case ps of
        None \<Rightarrow> payload
      | Some p \<Rightarrow>
          if HasVisionContent (DetectVisionContent p) then
            (case BuildVisionAttributes (DetectVisionContent p) of
               None \<Rightarrow> payload(''hasVisionContent'' \<mapsto> VBool True)
             | Some attrs \<Rightarrow>
                 payload(''hasVisionContent'' \<mapsto> VBool True, ''attributes'' \<mapsto> VMap attrs))
          else payload)"

text \<open>
  The metadata is a map that may be nil (\<open>None\<close>); the request parameters are a pointer
  that may be nil.
\<close>

definition buildMeteringPayload ::
  "BuildEnv \<Rightarrow> Message \<Rightarrow> 'v Payload option \<Rightarrow> bool \<Rightarrow> int \<Rightarrow> string \<Rightarrow> int \<Rightarrow>
   MessageNewParams option \<Rightarrow> 'v Payload" where
  "buildMeteringPayload env resp md isStreamed duration prov start ps =
     (let stop = (if StopReason resp \<noteq> [] then mapStopReasonToRevenium (StopReason resp)
                  else ''END'');
          payload = map_of
            [(''stopReason'', VString stop),
             (''costType'', VString ''AI''),
             (''isStreamed'', VBool isStreamed),
             (''operationType'', VString ''CHAT''),
             (''inputTokenCount'', VInt64 (InputTokens (UsageOf resp))),
             (''outputTokenCount'', VInt64 (OutputTokens (UsageOf resp))),
             (''reasoningTokenCount'', VInt64 0),
             (''cacheCreationTokenCount'', VInt64 0),
             (''cacheReadTokenCount'', VInt64 0),
             (''totalTokenCount'',
                VInt64 (InputTokens (UsageOf resp) + OutputTokens (UsageOf resp))),
             (''model'', VString (ModelOf resp)),
             (''transactionId'', VString (requestID env)),
             (''responseTime'', VString (formatRFC3339 env (start + duration))),
             (''requestDuration'', VInt64 (of_int (Milliseconds duration))),
             (''provider'', VString (normalizeProviderName prov)),
             (''requestTime'', VString (formatRFC3339 env start)),
             (''completionStartTime'', VString (formatRFC3339 env start)),
             (''timeToFirstToken'', VInt64 0),
             (''middlewareSource'', VString (middlewareSource env))];
          payload' =
            (case md of
               None \<Rightarrow> payload
             | Some m \<Rightarrow>
                 (let copied = copyKeys m metadataKeys payload
                  in case m ''errorReason'' of
                       None \<Rightarrow> copied
                     | Some errorReason \<Rightarrow>
                         copied(''errorReason'' \<mapsto> errorReason,
                                ''stopReason'' \<mapsto> VString ''ERROR'')))
      in addVision ps payload')"

definition AddPromptDataToPayload :: "'v Payload \<Rightarrow> PromptData \<Rightarrow> 'v Payload" where
  "AddPromptDataToPayload payload d =
     (let p1 = (if SystemPrompt d \<noteq> [] then payload(''systemPrompt'' \<mapsto> VString (SystemPrompt d))
                else payload);
          p2 = (if InputMessages d \<noteq> [] then p1(''inputMessages'' \<mapsto> VString (InputMessages d))
                else p1);
          p3 = (if OutputResponse d \<noteq> []
                then p2(''outputResponse'' \<mapsto> VString (OutputResponse d)) else p2)
      in if PromptsTruncated d then p3(''promptsTruncated'' \<mapsto> VBool True) else p3)"

text \<open>The payload \<open>sendMeteringDataWithPrompts\<close> hands to the dispatcher.\<close>

definition meteringPayloadWithPrompts ::
  "BuildEnv \<Rightarrow> Message \<Rightarrow> 'v Payload option \<Rightarrow> bool \<Rightarrow> int \<Rightarrow> string \<Rightarrow> int \<Rightarrow>
   MessageNewParams option \<Rightarrow> PromptData option \<Rightarrow> 'v Payload" where
  "meteringPayloadWithPrompts env resp md isStreamed duration prov start ps pd =
     (case pd of
        None \<Rightarrow> buildMeteringPayload env resp md isStreamed duration prov start ps
      | Some d \<Rightarrow>
          AddPromptDataToPayload
            (buildMeteringPayload env resp md isStreamed duration prov start ps) d)"

section \<open>Streaming sessions (\<open>StreamingWrapper\<close>)\<close>

text \<open>
  The fields of the wrapper that carry metering state (the stream handle, the
  configuration, the lock and the back reference to the messages interface are left
  out).  The fields the source calls \<open>metadata\<close>, \<open>startTime\<close>, \<open>model\<close>, \<open>provider\<close>,
  \<open>stopReason\<close> and \<open>params\<close> carry the prefix \<open>sw\<close>.
\<close>

record 'v StreamingWrapper =
  swMetadata :: "'v Payload"
  swStartTime :: int
  firstTokenTime :: "int option"
  inputTokens :: int64
  outputTokens :: int64
  totalTokens :: int64
  swModel :: string
  swProvider :: string
  swStopReason :: string
  swParams :: "MessageNewParams option"
  promptData :: "PromptData option"
  accumulatedContent :: string

text \<open>
  A string field read through reflection keeps its dynamic type.  The assertion
  \<open>.(string)\<close> of the source succeeds on a \<open>string\<close> and fails on a named type whose
  underlying type is \<open>string\<close>, such as \<open>anthropic.StopReason\<close>, the type of the
  \<open>StopReason\<close> field in the deltas of the SDK.
\<close>

datatype DynamicString = PlainString string | NamedString string

primrec underlying :: "DynamicString \<Rightarrow> string" where
  "underlying (PlainString s) = s"
| "underlying (NamedString s) = s"

text \<open>
  A stream event, as the reflective probes of the source see it: the \<open>Type\<close> field, the
  \<open>Text\<close> of its \<open>Delta\<close> (empty when the field is missing), the \<open>StopReason\<close> of its
  \<open>Delta\<close> with its dynamic type (empty when the field is missing), and its \<open>Usage\<close> field
  (\<open>None\<close> when it is missing or zero).
\<close>

record StreamEvent =
  eventType :: string
  deltaText :: string
  deltaStopReason :: DynamicString
  eventUsage :: "Usage option"

definition isContentEvent :: "StreamEvent \<Rightarrow> bool" where
  "isContentEvent event = (deltaText event \<noteq> [])"

definition extractTextFromContentEvent :: "StreamEvent \<Rightarrow> string" where
  "extractTextFromContentEvent event = deltaText event"

definition isMessageDeltaEvent :: "StreamEvent \<Rightarrow> bool" where
  "isMessageDeltaEvent event = (eventType event = ''message_delta'')"

definition extractUsageFromEvent :: "StreamEvent \<Rightarrow> Usage option" where
  "extractUsageFromEvent event = eventUsage event"

text \<open>
  \<open>extractStopReasonFromEvent\<close>: the field must be non-zero and a \<open>string\<close>.  For the
  events of the SDK, whose field is an \<open>anthropic.StopReason\<close>, the result is empty.
\<close>

definition extractStopReasonFromEvent :: "StreamEvent \<Rightarrow> string" where
  "extractStopReasonFromEvent event =
     (if underlying (deltaStopReason event) = [] then []
      else case deltaStopReason event of
             PlainString stopReason \<Rightarrow> stopReason
           | NamedString stopReason \<Rightarrow> [])"

definition SetInputTokens :: "'v StreamingWrapper \<Rightarrow> int64 \<Rightarrow> 'v StreamingWrapper" where
  "SetInputTokens sw tokens =
     sw\<lparr>inputTokens := tokens, totalTokens := tokens + outputTokens sw\<rparr>"

definition SetModel :: "'v StreamingWrapper \<Rightarrow> string \<Rightarrow> 'v StreamingWrapper" where
  "SetModel sw m = sw\<lparr>swModel := m\<rparr>"

text \<open>
  The bookkeeping of \<open>Current\<close> for an event the stream delivers at time \<open>now\<close>.  (When
  the stream delivers none the wrapper is left as it is.)
\<close>

definition Current :: "'v StreamingWrapper \<Rightarrow> StreamEvent \<Rightarrow> int \<Rightarrow> 'v StreamingWrapper" where
  "Current sw event now =
     (let sw1 =
        (if isContentEvent event then
           sw\<lparr>firstTokenTime :=
                 (case firstTokenTime sw of None \<Rightarrow> Some now | Some t \<Rightarrow> Some t),
               accumulatedContent :=
                 (if promptData sw \<noteq> None \<and> extractTextFromContentEvent event \<noteq> []
                  then accumulatedContent sw @ extractTextFromContentEvent event
                  else accumulatedContent sw)\<rparr>
         else sw)
      in if isMessageDeltaEvent event then
           (let sw2 =
              (case extractUsageFromEvent event of
                 None \<Rightarrow> sw1
               | Some usage \<Rightarrow>
                   sw1\<lparr>inputTokens := InputTokens usage,
                        outputTokens := OutputTokens usage,
                        totalTokens := InputTokens usage + OutputTokens usage\<rparr>)
            in if extractStopReasonFromEvent event \<noteq> []
               then sw2\<lparr>swStopReason := extractStopReasonFromEvent event\<rparr>
               else sw2)
         else sw1)"

text \<open>
  The wrapper as \<open>createMessageStreamAnthropic\<close> and \<open>createMessageStreamBedrock\<close> build
  it: the metadata copied and completed with the model, the counters zero, then
  \<open>SetInputTokens\<close> with the estimate.
\<close>

definition streamMetadata :: "'v Payload option \<Rightarrow> string \<Rightarrow> 'v Payload" where
  "streamMetadata md m =
     (let copied = (case md of None \<Rightarrow> Map.empty | Some x \<Rightarrow> x)
      in case copied ''model'' of None \<Rightarrow> copied(''model'' \<mapsto> VString m) | Some v \<Rightarrow> copied)"

definition newStreamingWrapper ::
  "'v Payload option \<Rightarrow> int \<Rightarrow> string \<Rightarrow> MessageNewParams \<Rightarrow> PromptData option \<Rightarrow>
   'v StreamingWrapper" where
  "newStreamingWrapper md now prov p pd =
     SetInputTokens
       \<lparr>swMetadata = streamMetadata md (Model p), swStartTime = now, firstTokenTime = None,
        inputTokens = 0, outputTokens = 0, totalTokens = 0, swModel = Model p,
        swProvider = prov, swStopReason = [], swParams = Some p, promptData = pd,
        accumulatedContent = []\<rparr>
       (of_int (estimateInputTokens p))"

text \<open>The states a wrapper can be in between its creation and \<open>Close\<close>.\<close>

inductive reachable :: "'v StreamingWrapper \<Rightarrow> bool" where
  opened: "reachable (newStreamingWrapper md now prov p pd)"
| setInputTokens: "reachable sw \<Longrightarrow> reachable (SetInputTokens sw tokens)"
| setModel: "reachable sw \<Longrightarrow> reachable (SetModel sw m)"
| current: "reachable sw \<Longrightarrow> reachable (Current sw event now)"

text \<open>The payload the metering function of \<open>Close\<close> builds, \<open>Close\<close> being called at \<open>now\<close>.\<close>

definition closePayload :: "BuildEnv \<Rightarrow> 'v StreamingWrapper \<Rightarrow> int \<Rightarrow> 'v Payload" where
  "closePayload env sw now =
     (let duration = now - swStartTime sw;
          timeToFirstToken =
            (case firstTokenTime sw of None \<Rightarrow> 0 | Some t \<Rightarrow> t - swStartTime sw);
          mockResp = \<lparr>ModelOf = swModel sw, StopReason = swStopReason sw,
                      UsageOf = \<lparr>InputTokens = inputTokens sw,
                                 OutputTokens = outputTokens sw\<rparr>,
                      ContentOf = []\<rparr>;
          p0 = buildMeteringPayload env mockResp (Some (swMetadata sw)) True duration
                 (swProvider sw) (swStartTime sw) (swParams sw);
          p1 = p0(''timeToFirstToken'' \<mapsto> VInt64 (of_int (Milliseconds timeToFirstToken)));
          p2 = (case firstTokenTime sw of
                  None \<Rightarrow> p1
                | Some t \<Rightarrow> p1(''completionStartTime'' \<mapsto> VString (formatRFC3339 env t)));
          p3 = p2(''inputTokenCount'' \<mapsto> VInt64 (inputTokens sw),
                  ''outputTokenCount'' \<mapsto> VInt64 (outputTokens sw),
                  ''totalTokenCount'' \<mapsto> VInt64 (totalTokens sw));
          p4 = (if swModel sw \<noteq> [] then p3(''model'' \<mapsto> VString (swModel sw)) else p3)
      in case promptData sw of
           None \<Rightarrow> p4
         | Some pd \<Rightarrow>
             (let p5 = (if SystemPrompt pd \<noteq> []
                        then p4(''systemPrompt'' \<mapsto> VString (SystemPrompt pd)) else p4);
                  p6 = (if InputMessages pd \<noteq> []
                        then p5(''inputMessages'' \<mapsto> VString (InputMessages pd)) else p5);
                  responseData = ExtractStreamingResponseContent (accumulatedContent sw)
                                   (PromptsTruncated pd);
                  p7 = (if OutputResponse responseData \<noteq> []
                        then p6(''outputResponse'' \<mapsto> VString (OutputResponse responseData))
                        else p6)
              in if PromptsTruncated responseData
                 then p7(''promptsTruncated'' \<mapsto> VBool True) else p7))"

text \<open>
  For the statements: the three token fields of a payload are integers and the total is
  the sum of the other two (in 64-bit arithmetic).
\<close>

definition tokenFieldsAdd :: "'v Payload \<Rightarrow> bool" where
  "tokenFieldsAdd payload =
     (case (payload ''inputTokenCount'', payload ''outputTokenCount'',
            payload ''totalTokenCount'') of
        (Some (VInt64 i), Some (VInt64 out), Some (VInt64 t)) \<Rightarrow> t = i + out
      | _ \<Rightarrow> False)"


section \<open>Example values\<close>

text \<open>Concrete surroundings, requests, responses and events for the instances below.\<close>

definition exEnv :: BuildEnv where
  "exEnv = \<lparr>formatRFC3339 = (\<lambda>t. ''2026-01-01T00:00:00Z''), requestID = ''1-1'',
            middlewareSource = ''go''\<rparr>"

definition exParams :: MessageNewParams where
  "exParams = \<lparr>Model = ''claude-3-opus-20240229'',
      Messages = [\<lparr>Role = ''user'', Content = [TextBlock ''hello'']\<rparr>], System = []\<rparr>"

definition exResp :: Message where
  "exResp = \<lparr>ModelOf = ''claude-3-opus-20240229'', StopReason = ''end_turn'',
      UsageOf = \<lparr>InputTokens = 12, OutputTokens = 30\<rparr>, ContentOf = []\<rparr>"

definition exEvent :: StreamEvent where
  "exEvent = \<lparr>eventType = ''message_delta'', deltaText = [],
      deltaStopReason = NamedString ''end_turn'',
      eventUsage = Some \<lparr>InputTokens = 12, OutputTokens = 30\<rparr>\<rparr>"

text \<open>The euro sign (U+20AC, three bytes in UTF-8) and a text of \<open>n\<close> euro signs.\<close>

definition euroSign :: string where
  "euroSign = [CHR 0xE2, CHR 0x82, CHR 0xAC]"

definition euroText :: "nat \<Rightarrow> string" where
  "euroText n = concat (replicate n euroSign)"

text \<open>
  A text of 150001 bytes in 50001 characters, and responses with a long and a short text.
\<close>

definition exLongText :: string where
  "exLongText = CHR ''a'' # euroText 50000"

definition exLongResponse :: Message where
  "exLongResponse =
     \<lparr>ModelOf = ''claude-3-opus-20240229'', StopReason = ''end_turn'',
      UsageOf = \<lparr>InputTokens = 7, OutputTokens = 50001\<rparr>,
      ContentOf = [\<lparr>blockType = ''text'', blockText = exLongText\<rparr>]\<rparr>"

definition exShortResponse :: Message where
  "exShortResponse =
     \<lparr>ModelOf = ''claude-3-opus-20240229'', StopReason = ''end_turn'',
      UsageOf = \<lparr>InputTokens = 7, OutputTokens = 2\<rparr>,
      ContentOf = [\<lparr>blockType = ''text'', blockText = ''hi''\<rparr>,
                   \<lparr>blockType = ''tool_use'', blockText = []\<rparr>,
                   \<lparr>blockType = ''text'', blockText = ''there''\<rparr>]\<rparr>"

section \<open>Theorems\<close>

subsection \<open>Stop reasons\<close>

text \<open>
  C1 (as stated, refuted).  The claim maps \<open>context_window_exceeded\<close> to \<open>TOKEN_LIMIT\<close>;
  the code names \<open>model_context_window_exceeded\<close> in that case, so the claim's spelling
  falls into the default branch and yields \<open>END\<close>.
\<close>

theorem mapStopReason_context_window_counterexample:
  "mapStopReasonToRevenium ''context_window_exceeded'' = ''END''
   \<and> mapStopReasonToRevenium ''context_window_exceeded'' \<noteq> ''TOKEN_LIMIT''"
  by (simp add: mapStopReasonToRevenium_def)

text \<open>
  C1 (amended).  For every raw stop-reason string the function returns the value of the
  table of the code: \<open>end_turn\<close>, \<open>tool_use\<close> and \<open>pause_turn\<close> give \<open>END\<close>;
  \<open>max_tokens\<close> and \<open>model_context_window_exceeded\<close> give \<open>TOKEN_LIMIT\<close>;
  \<open>stop_sequence\<close> gives \<open>END_SEQUENCE\<close>; \<open>refusal\<close> and \<open>error\<close> give \<open>ERROR\<close>;
  \<open>timeout\<close> gives \<open>TIMEOUT\<close>; \<open>cancelled\<close> and \<open>canceled\<close> give \<open>CANCELLED\<close>; every
  string outside the table, the empty string included, gives \<open>END\<close>.  The function is
  total: there is no error result.
\<close>

theorem mapStopReason_table:
  "mapStopReasonToRevenium ''end_turn'' = ''END''
   \<and> mapStopReasonToRevenium ''tool_use'' = ''END''
   \<and> mapStopReasonToRevenium ''pause_turn'' = ''END''
   \<and> mapStopReasonToRevenium ''max_tokens'' = ''TOKEN_LIMIT''
   \<and> mapStopReasonToRevenium ''model_context_window_exceeded'' = ''TOKEN_LIMIT''
   \<and> mapStopReasonToRevenium ''stop_sequence'' = ''END_SEQUENCE''
   \<and> mapStopReasonToRevenium ''refusal'' = ''ERROR''
   \<and> mapStopReasonToRevenium ''timeout'' = ''TIMEOUT''
   \<and> mapStopReasonToRevenium ''error'' = ''ERROR''
   \<and> mapStopReasonToRevenium ''cancelled'' = ''CANCELLED''
   \<and> mapStopReasonToRevenium ''canceled'' = ''CANCELLED''
   \<and> mapStopReasonToRevenium '''' = ''END''
   \<and> (s \<notin> set stopReasonTable \<longrightarrow> mapStopReasonToRevenium s = ''END'')"
  by (simp add: mapStopReasonToRevenium_def stopReasonTable_def)

theorem mapStopReason_table_witness:
  "''length'' \<notin> set stopReasonTable \<and> mapStopReasonToRevenium ''length'' = ''END''"
  using mapStopReason_table [of "''length''"]
  by (simp add: stopReasonTable_def)

subsection \<open>Retryable errors\<close>

text \<open>
  What the code computes: a non-nil error is retryable exactly when its message has at
  least seven bytes, the length of the shortest pattern.
\<close>

lemma contains_nonempty: "p \<noteq> [] \<Longrightarrow> contains s p = (length p \<le> length s)"
  by (cases s) (auto simp: contains_def)

lemma pattern_lengths:
  "map length retryablePatterns = [7, 18, 16, 17, 19, 10, 13, 20, 19]"
  by (simp add: retryablePatterns_def)

lemma anyPattern_lengths:
  "[] \<notin> set ps \<Longrightarrow> anyPattern s ps = list_ex (\<lambda>n. n \<le> length s) (map length ps)"
  by (induction ps) (auto simp: contains_nonempty)

lemma IsRetryableError_length:
  "IsRetryableError (Some errStr) = (7 \<le> length errStr)"
proof -
  have "[] \<notin> set retryablePatterns" by (simp add: retryablePatterns_def)
  then have "anyPattern errStr retryablePatterns
      = list_ex (\<lambda>n. n \<le> length errStr) [7, 18, 16, 17, 19, 10, 13, 20, 19]"
    using anyPattern_lengths[of retryablePatterns errStr] pattern_lengths by metis
  then show ?thesis
    by (auto simp add: IsRetryableError_def)
qed

text \<open>
  C2 (the code departs from the claim).  The error message \<open>access denied\<close> contains
  none of the nine patterns, in any letter case, yet \<open>IsRetryableError\<close> answers true:
  \<open>contains\<close> compares lengths only, so every message of at least seven bytes (the
  length of \<open>timeout\<close>) is classified as retryable.
\<close>

theorem IsRetryableError_access_denied:
  "IsRetryableError (Some ''access denied'')
   \<and> \<not> anyPatternFold ''access denied'' retryablePatterns"
  by (simp add: IsRetryableError_def retryablePatterns_def contains_def containsFold_def
      toLowerChar_def)

subsection \<open>Provider detection\<close>

text \<open>
  C9 (the code departs from the claim).  With Bedrock enabled, no static key pair, a base
  URL outside the cloud vendor's domain and the named profile \<open>default\<close>, the adapter's
  \<open>loadAWSConfig\<close> would use the profile, but \<open>DetectProvider\<close> never reads
  \<open>AWSProfile\<close> and selects the direct provider.
\<close>

theorem DetectProvider_profile_only:
  "DetectProvider (Some (emptyConfig\<lparr>AWSProfile := ''default''\<rparr>)) = ProviderAnthropic
   \<and> loadAWSConfig_source (emptyConfig\<lparr>AWSProfile := ''default''\<rparr>) = SharedConfigProfile"
  by (simp add: DetectProvider_def loadAWSConfig_source_def emptyConfig_def)

subsection \<open>Input-token estimate\<close>

lemma countChars_sum:
  "countChars ms t = t + 10 * int (sum_list (map (\<lambda>msg. length (Content msg)) ms))"
  by (induction ms arbitrary: t) simp_all

text \<open>
  C8 (as stated, refuted).  A request of one message with one text block of 400
  characters is estimated at 2 tokens, below 10.  A request of one message with four
  text blocks of 1000 characters each is estimated at 10 tokens, although its content
  has 4000 characters: the estimate does not depend on the characters at all.
\<close>

theorem estimateInputTokens_counterexample:
  "estimateInputTokens
     \<lparr>Model = ''claude-3-opus-20240229'',
      Messages = [\<lparr>Role = ''user'', Content = [TextBlock (replicate 400 (CHR ''a''))]\<rparr>],
      System = []\<rparr> = 2
   \<and> estimateInputTokens
     \<lparr>Model = ''claude-3-opus-20240229'',
      Messages = [\<lparr>Role = ''user'',
                   Content = replicate 4 (TextBlock (replicate 1000 (CHR ''a'')))\<rparr>],
      System = []\<rparr> = 10
   \<and> textChars
     \<lparr>Model = ''claude-3-opus-20240229'',
      Messages = [\<lparr>Role = ''user'',
                   Content = replicate 4 (TextBlock (replicate 1000 (CHR ''a'')))\<rparr>],
      System = []\<rparr> = 4000"
  by (simp add: estimateInputTokens_def textChars_def sum_list_replicate)

text \<open>
  C8 (amended).  The estimate is computed from the number of content blocks of the
  request, ten characters per block and four characters per token: a request without
  any content block is estimated at 10 tokens, and a request with at least four content
  blocks at \<open>(10 * blocks) div 4\<close> tokens, which is at least 10.
\<close>

theorem estimateInputTokens_blocks:
  "(blockCount params = 0 \<longrightarrow> estimateInputTokens params = 10)
   \<and> (4 \<le> blockCount params \<longrightarrow>
        estimateInputTokens params = (10 * int (blockCount params)) div 4
        \<and> 10 \<le> estimateInputTokens params)"
proof -
  have est: "estimateInputTokens params =
      (if (10 * int (blockCount params)) div 4 < 1 then 10
       else (10 * int (blockCount params)) div 4)"
    unfolding estimateInputTokens_def blockCount_def countChars_sum Let_def by simp
  show ?thesis
    unfolding est by (cases "blockCount params = 0") auto
qed

theorem estimateInputTokens_blocks_witness:
  "blockCount \<lparr>Model = ''m'', Messages = [], System = []\<rparr> = 0
   \<and> estimateInputTokens \<lparr>Model = ''m'', Messages = [], System = []\<rparr> = 10
   \<and> 4 \<le> blockCount
        \<lparr>Model = ''m'',
         Messages = [\<lparr>Role = ''user'', Content = replicate 6 (TextBlock ''hello'')\<rparr>],
         System = []\<rparr>
   \<and> estimateInputTokens
        \<lparr>Model = ''m'',
         Messages = [\<lparr>Role = ''user'', Content = replicate 6 (TextBlock ''hello'')\<rparr>],
         System = []\<rparr> = 15"
  using estimateInputTokens_blocks [of "\<lparr>Model = ''m'', Messages = [], System = []\<rparr>"]
    estimateInputTokens_blocks [of "\<lparr>Model = ''m'',
         Messages = [\<lparr>Role = ''user'', Content = replicate 6 (TextBlock ''hello'')\<rparr>],
         System = []\<rparr>"]
  by (simp add: blockCount_def)

subsection \<open>Model identifiers\<close>

lemma splitAux_no_sep:
  "c \<notin> set b \<Longrightarrow> splitAux [c] acc b = [rev acc @ b]"
  by (induction b arbitrary: acc) auto

lemma splitAux_one_sep:
  "c \<notin> set a \<Longrightarrow> splitAux [c] acc (a @ c # b) = (rev acc @ a) # splitAux [c] [] b"
  by (induction a arbitrary: acc) auto

lemma Contains_prefix: "prefix sub s \<Longrightarrow> Contains s sub"
  by (cases s) auto

lemma Contains_set: "Contains s sub \<Longrightarrow> set sub \<subseteq> set s"
proof (induction s)
  case Nil
  then show ?case by simp
next
  case (Cons c cs)
  show ?case
  proof (cases "prefix sub (c # cs)")
    case True
    then show ?thesis by (rule set_mono_prefix)
  next
    case False
    with Cons show ?thesis by auto
  qed
qed

lemma not_Contains: "c \<in> set sub \<Longrightarrow> c \<notin> set s \<Longrightarrow> \<not> Contains s sub"
  using Contains_set by blast

text \<open>The version mark: a name without \<open>-v\<close> is the first piece of a split at \<open>-v\<close>.\<close>

lemma splitAux_version_none:
  "\<not> Contains m ''-v'' \<Longrightarrow> splitAux ''-v'' acc m = [rev acc @ m]"
proof (induction m arbitrary: acc)
  case Nil
  then show ?case by simp
next
  case (Cons c cs)
  then have "\<not> prefix ''-v'' (c # cs)" and "\<not> Contains cs ''-v''"
    by (auto split: if_splits)
  with Cons.IH[of "c # acc"] show ?case by simp
qed

lemma splitAux_version_mark:
  "\<not> Contains m ''-v'' \<Longrightarrow>
   splitAux ''-v'' acc (m @ ''-v'' @ rest) = (rev acc @ m) # splitAux ''-v'' [] rest"
proof (induction m arbitrary: acc)
  case Nil
  then show ?case by simp
next
  case (Cons c cs)
  then have np: "\<not> prefix ''-v'' (c # cs)" and nc: "\<not> Contains cs ''-v''"
    by (auto split: if_splits)
  have "\<not> prefix ''-v'' (c # cs @ ''-v'' @ rest)"
    using np by (cases cs) auto
  with Cons.IH[OF nc, of "c # acc"] show ?case by simp
qed

lemma SplitFirst_plain:
  assumes "\<not> Contains m ''-v''"
  shows "SplitFirst m ''-v'' = m" "SplitFirst (m @ ''-v1:0'') ''-v'' = m"
proof -
  show "SplitFirst m ''-v'' = m"
    using splitAux_version_none[OF assms, of "[]"] by (simp add: SplitFirst_def Split_def)
  have "m @ ''-v1:0'' = m @ ''-v'' @ ''1:0''" by simp
  then show "SplitFirst (m @ ''-v1:0'') ''-v'' = m"
    using splitAux_version_mark[OF assms, of "[]" "''1:0''"]
    by (simp add: SplitFirst_def Split_def)
qed

lemma SplitFirst_colon:
  "CHR '':'' \<notin> set m \<Longrightarrow> SplitFirst m '':'' = m"
  using splitAux_no_sep[of "CHR '':''" m "[]"] by (simp add: SplitFirst_def Split_def)

lemma stripVersion_plain:
  assumes "plainModelName m"
  shows "stripVersion m = m" "stripVersion (m @ ''-v1:0'') = m"
  using assms
  by (simp_all add: plainModelName_def stripVersion_def SplitFirst_plain SplitFirst_colon)

text \<open>A prefix without a hyphen that does not start \<open>m\<close> does not start \<open>m-v1:0\<close> either.\<close>

lemma not_prefix_suffixed:
  assumes "\<not> prefix p m" and "CHR ''-'' \<notin> set p"
  shows "\<not> prefix p (m @ CHR ''-'' # t)"
proof
  assume "prefix p (m @ CHR ''-'' # t)"
  then consider "prefix p m" | us where "p = m @ us" "prefix us (CHR ''-'' # t)"
    by (auto simp: prefix_append)
  then show False
  proof cases
    case 1
    with assms(1) show False by simp
  next
    case 2
    show False
    proof (cases us)
      case Nil
      with 2 assms(1) show False by simp
    next
      case (Cons u us')
      with 2 have "u = CHR ''-''" by simp
      with 2 Cons assms(2) show False by simp
    qed
  qed
qed

lemma takeWhile_set: "x \<in> set (takeWhile P xs) \<Longrightarrow> P x"
  by (rule set_takeWhileD[THEN conjunct2])

lemma isDigit_not_slash: "isDigit c \<Longrightarrow> c \<noteq> CHR ''/''"
  by (auto simp: isDigit_def)

lemma isLowerAZ_not_slash: "isLowerAZ c \<Longrightarrow> c \<noteq> CHR ''/''"
  by (auto simp: isLowerAZ_def)

lemma arnAccount_no_slash: "arnAccount s \<Longrightarrow> CHR ''/'' \<notin> set s"
  by (auto simp: arnAccount_def list_all_iff dest: isDigit_not_slash)

lemma arnNumber_no_slash:
  assumes "arnNumber s" shows "CHR ''/'' \<notin> set s"
proof -
  from assms obtain rest where d: "dropWhile isDigit s = CHR '':'' # rest" and a: "arnAccount rest"
    by (auto simp: arnNumber_def split: list.splits)
  have "s = takeWhile isDigit s @ CHR '':'' # rest"
    using takeWhile_dropWhile_id[of isDigit s] d by simp
  then have "set s = set (takeWhile isDigit s) \<union> {CHR '':''} \<union> set rest"
    by (metis Un_insert_right list.simps(15) set_append sup_bot.right_neutral Un_assoc insert_is_Un)
  then show ?thesis
    using arnAccount_no_slash[OF a] by (auto dest: takeWhile_set isDigit_not_slash)
qed

lemma arnRegionName_no_slash:
  assumes "arnRegionName s" shows "CHR ''/'' \<notin> set s"
proof -
  from assms obtain rest where d: "dropWhile isLowerAZ s = CHR ''-'' # rest" and a: "arnNumber rest"
    by (auto simp: arnRegionName_def split: list.splits)
  have "s = takeWhile isLowerAZ s @ CHR ''-'' # rest"
    using takeWhile_dropWhile_id[of isLowerAZ s] d by simp
  then have "set s = set (takeWhile isLowerAZ s) \<union> {CHR ''-''} \<union> set rest"
    by (metis Un_insert_right list.simps(15) set_append sup_bot.right_neutral Un_assoc insert_is_Un)
  then show ?thesis
    using arnNumber_no_slash[OF a] by (auto dest: takeWhile_set isLowerAZ_not_slash)
qed

lemma arnRegion_no_slash:
  assumes "arnRegion s" shows "CHR ''/'' \<notin> set s"
proof -
  from assms obtain rest where d: "drop 2 s = CHR ''-'' # rest" and a: "arnRegionName rest"
    and l: "list_all isLowerAZ (take 2 s)"
    by (auto simp: arnRegion_def split: list.splits)
  have "s = take 2 s @ CHR ''-'' # rest"
    using append_take_drop_id[of 2 s] d by simp
  then have "set s = set (take 2 s) \<union> {CHR ''-''} \<union> set rest"
    by (metis Un_insert_right list.simps(15) set_append sup_bot.right_neutral Un_assoc insert_is_Un)
  then show ?thesis
    using arnRegionName_no_slash[OF a] l by (auto simp: list_all_iff dest: isLowerAZ_not_slash)
qed

lemma arnPattern_no_slash:
  assumes "arnPattern s" shows "CHR ''/'' \<notin> set s"
proof -
  from assms have p: "prefix ''arn:aws:bedrock:'' s" and r: "arnRegion (drop 16 s)"
    by (auto simp: arnPattern_def)
  from p obtain t where s: "s = ''arn:aws:bedrock:'' @ t" by (auto simp: prefix_def)
  with r have "arnRegion t" by simp
  then show ?thesis using arnRegion_no_slash s by auto
qed

lemma convert_full_arn:
  assumes "arnPattern b" and "plainModelName m"
  shows "ConvertBedrockARNToAnthropicModel
      (b @ '':inference-profile/us.anthropic.'' @ m @ ''-v1:0'') = Inr m"
proof -
  define a where "a = b @ '':inference-profile''"
  define t where "t = ''us.anthropic.'' @ m @ ''-v1:0''"
  define x where "x = a @ CHR ''/'' # t"
  have eq: "b @ '':inference-profile/us.anthropic.'' @ m @ ''-v1:0'' = x"
    by (simp add: x_def a_def t_def)
  have na: "CHR ''/'' \<notin> set a"
    using arnPattern_no_slash[OF assms(1)] by (simp add: a_def)
  have nt: "CHR ''/'' \<notin> set t"
    using assms(2) by (simp add: t_def plainModelName_def)
  have sp: "Split x ''/'' = [a, t]"
    unfolding Split_def x_def
    using splitAux_one_sep[OF na, of "[]" t] splitAux_no_sep[OF nt, of "[]"] by simp
  have "prefix ''arn:aws:bedrock'' b"
    using assms(1) by (auto simp: arnPattern_def prefix_def)
  then have "prefix ''arn:aws:bedrock'' x"
    by (simp add: x_def a_def)
  then have c: "Contains x ''arn:aws:bedrock''"
    by (rule Contains_prefix)
  have t1: "TrimPrefix t ''us.anthropic.'' = m @ ''-v1:0''"
    by (simp add: t_def TrimPrefix_def)
  have e: "\<not> prefix ''eu.anthropic.'' (m @ ''-v1:0'')"
    "\<not> prefix ''ap.anthropic.'' (m @ ''-v1:0'')"
    using assms(2)
      not_prefix_suffixed[of "''eu.anthropic.''" m "''v1:0''"]
      not_prefix_suffixed[of "''ap.anthropic.''" m "''v1:0''"]
    by (simp_all add: plainModelName_def)
  have tp: "TrimPrefix (TrimPrefix (TrimPrefix t ''us.anthropic.'') ''eu.anthropic.'')
      ''ap.anthropic.'' = m @ ''-v1:0''"
    unfolding t1 using e by (simp add: TrimPrefix_def)
  show ?thesis
    unfolding eq ConvertBedrockARNToAnthropicModel_def
    by (simp add: c sp tp stripVersion_plain[OF assms(2)])
qed

lemma convert_standard:
  assumes "plainModelName m"
  shows "ConvertBedrockARNToAnthropicModel (standardBedrockID m) = Inr m"
proof -
  define x where "x = ''anthropic.'' @ m"
  have s: "standardBedrockID m = x"
    using assms by (simp add: standardBedrockID_def x_def plainModelName_def)
  have t: "TrimPrefix x ''anthropic.'' = m"
    by (simp add: TrimPrefix_def x_def)
  have "CHR '':'' \<notin> set x"
    using assms by (simp add: x_def plainModelName_def)
  then have n: "\<not> Contains x ''arn:aws:bedrock''"
    by (intro not_Contains[of "CHR '':''"]) simp_all
  have p: "prefix ''anthropic.'' x" by (simp add: x_def)
  show ?thesis
    unfolding s ConvertBedrockARNToAnthropicModel_def
    by (simp add: n p t stripVersion_plain[OF assms])
qed

text \<open>
  C6.  For every plain model name (no \<open>/\<close>, no \<open>:\<close>, no \<open>-v\<close>, none of the prefixes
  \<open>anthropic.\<close>, \<open>eu.anthropic.\<close> and \<open>ap.anthropic.\<close>) and every configuration (none,
  without a base ARN, with a valid base ARN, with an invalid one), converting the name
  to gateway form with \<open>GetBedrockModelID\<close> and back with
  \<open>ConvertBedrockARNToAnthropicModel\<close> yields the name again, and no error.
\<close>

theorem model_round_trip:
  assumes "plainModelName m"
  shows "ConvertBedrockARNToAnthropicModel (GetBedrockModelID m config) = Inr m"
proof -
  have "CHR '':'' \<notin> set m" using assms by (simp add: plainModelName_def)
  then have np: "\<not> prefix ''arn:aws:bedrock:'' m"
    using set_mono_prefix[of "''arn:aws:bedrock:''" m] by auto
  show ?thesis
  proof (cases config)
    case None
    then show ?thesis using np convert_standard[OF assms] by (simp add: GetBedrockModelID_def)
  next
    case (Some c)
    show ?thesis
    proof (cases "AWSModelARNBase c \<noteq> [] \<and> m \<noteq> []
        \<and> ValidateBedrockBaseARN (AWSModelARNBase c) = None")
      case True
      then have "arnPattern (AWSModelARNBase c)"
        by (auto simp: ValidateBedrockBaseARN_def split: if_splits)
      from convert_full_arn[OF this assms] True Some np show ?thesis
        by (simp add: GetBedrockModelID_def ConstructFullBedrockARN_def)
    next
      case False
      then show ?thesis using Some np convert_standard[OF assms]
        by (auto simp: GetBedrockModelID_def ConstructFullBedrockARN_def split: option.splits)
    qed
  qed
qed

theorem model_round_trip_witness:
  "plainModelName ''claude-3-5-sonnet-20241022''
   \<and> GetBedrockModelID ''claude-3-5-sonnet-20241022''
        (Some (emptyConfig\<lparr>AWSModelARNBase := ''arn:aws:bedrock:us-east-1:123456789012''\<rparr>))
      = ''arn:aws:bedrock:us-east-1:123456789012:inference-profile/us.anthropic.claude-3-5-sonnet-20241022-v1:0''
   \<and> ConvertBedrockARNToAnthropicModel (GetBedrockModelID ''claude-3-5-sonnet-20241022''
        (Some (emptyConfig\<lparr>AWSModelARNBase := ''arn:aws:bedrock:us-east-1:123456789012''\<rparr>)))
      = Inr ''claude-3-5-sonnet-20241022''
   \<and> plainModelName ''claude-3-opus-20240229''
   \<and> GetBedrockModelID ''claude-3-opus-20240229'' None = ''anthropic.claude-3-opus-20240229''
   \<and> ConvertBedrockARNToAnthropicModel (GetBedrockModelID ''claude-3-opus-20240229'' None)
      = Inr ''claude-3-opus-20240229''"
proof -
  have m: "plainModelName ''claude-3-5-sonnet-20241022''"
    by (simp add: plainModelName_def)
  have m': "plainModelName ''claude-3-opus-20240229''"
    by (simp add: plainModelName_def)
  have g: "GetBedrockModelID ''claude-3-5-sonnet-20241022''
        (Some (emptyConfig\<lparr>AWSModelARNBase := ''arn:aws:bedrock:us-east-1:123456789012''\<rparr>))
      = ''arn:aws:bedrock:us-east-1:123456789012:inference-profile/us.anthropic.claude-3-5-sonnet-20241022-v1:0''"
    by (simp add: GetBedrockModelID_def ConstructFullBedrockARN_def ValidateBedrockBaseARN_def
        arnPattern_def arnRegion_def arnRegionName_def arnNumber_def arnAccount_def
        isLowerAZ_def isDigit_def emptyConfig_def)
  have g': "GetBedrockModelID ''claude-3-opus-20240229'' None = ''anthropic.claude-3-opus-20240229''"
    by (simp add: GetBedrockModelID_def standardBedrockID_def)
  show ?thesis
    using m m' g g'
      model_round_trip[OF m, of "Some (emptyConfig\<lparr>AWSModelARNBase :=
        ''arn:aws:bedrock:us-east-1:123456789012''\<rparr>)"]
      model_round_trip[OF m', of None]
    by simp
qed

text \<open>
  The conditions on the name matter: a name with a version mark of its own loses it, and
  a name that already carries the gateway prefix loses the prefix.
\<close>

lemma round_trip_needs_plain:
  "ConvertBedrockARNToAnthropicModel (GetBedrockModelID ''claude-v1'' None) = Inr ''claude''"
  "ConvertBedrockARNToAnthropicModel (GetBedrockModelID ''anthropic.claude-3-opus-20240229'' None)
     = Inr ''claude-3-opus-20240229''"
  by (simp_all add: GetBedrockModelID_def standardBedrockID_def
      ConvertBedrockARNToAnthropicModel_def TrimPrefix_def stripVersion_def SplitFirst_def
      Split_def)

subsection \<open>Retry with backoff\<close>

lemma nextBackoff_default:
  "nextBackoff DefaultRetryConfig (100 * millisecond) = 200 * millisecond"
  "nextBackoff DefaultRetryConfig (200 * millisecond) = 400 * millisecond"
  "nextBackoff DefaultRetryConfig (400 * millisecond) = 800 * millisecond"
  by (simp_all add: nextBackoff_def DefaultRetryConfig_def truncateRat_def millisecond_def
      second_def Let_def)

text \<open>
  C3 (amended).  For every function \<open>fn\<close> and every context that is never cancelled,
  \<open>RetryWithBackoff\<close> under the default configuration invokes \<open>fn\<close> at least once and at
  most 4 times (the first attempt and \<open>MaxRetries = 3\<close> retries), and the waits between
  consecutive invocations are, in order, 100 ms, 200 ms and 400 ms: the 100 ms / 2x
  sequence, which stays below the cap of 5 s.
\<close>

theorem RetryWithBackoff_default:
  assumes "\<forall>k. \<not> ctxDone k"
  shows "1 \<le> fnCalls (RetryWithBackoff ctxDone DefaultRetryConfig fn s)
    \<and> fnCalls (RetryWithBackoff ctxDone DefaultRetryConfig fn s) \<le> 4
    \<and> waits (RetryWithBackoff ctxDone DefaultRetryConfig fn s) =
        take (fnCalls (RetryWithBackoff ctxDone DefaultRetryConfig fn s) - 1)
          [100 * millisecond, 200 * millisecond, 400 * millisecond]"
proof -
  have mr: "MaxRetries DefaultRetryConfig = 3" and ib: "InitialBackoff DefaultRetryConfig = 100 * millisecond"
    by (simp_all add: DefaultRetryConfig_def)
  show ?thesis
    unfolding RetryWithBackoff_def ib
    using assms
    by (auto simp add: mr nextBackoff_default split: prod.splits option.splits)
qed

text \<open>
  C3 (as stated, refuted).  A function that always fails with a retryable error is
  invoked 4 times under the default configuration, not at most 3 times.
\<close>

theorem RetryWithBackoff_four_calls_counterexample:
  "fnCalls (RetryWithBackoff (\<lambda>k. False) DefaultRetryConfig
      (\<lambda>s :: unit. (Some ''connection timeout'', s)) ()) = 4
   \<and> \<not> fnCalls (RetryWithBackoff (\<lambda>k. False) DefaultRetryConfig
      (\<lambda>s :: unit. (Some ''connection timeout'', s)) ()) \<le> 3"
proof -
  have mr: "MaxRetries DefaultRetryConfig = 3" by (simp add: DefaultRetryConfig_def)
  have r: "IsRetryableError (Some ''connection timeout'')"
    by (simp add: IsRetryableError_def retryablePatterns_def contains_def)
  show ?thesis
    unfolding RetryWithBackoff_def
    by (simp add: mr r)
qed

theorem RetryWithBackoff_default_witness:
  "(\<forall>k. \<not> (\<lambda>k :: nat. False) k)
   \<and> fnCalls (RetryWithBackoff (\<lambda>k. False) DefaultRetryConfig
        (\<lambda>n :: nat. (if n < 2 then Some ''connection timeout'' else None, Suc n)) 0) = 3
   \<and> waits (RetryWithBackoff (\<lambda>k. False) DefaultRetryConfig
        (\<lambda>n :: nat. (if n < 2 then Some ''connection timeout'' else None, Suc n)) 0)
      = [100 * millisecond, 200 * millisecond]"
proof -
  have mr: "MaxRetries DefaultRetryConfig = 3"
    and ib: "InitialBackoff DefaultRetryConfig = 100 * millisecond"
    by (simp_all add: DefaultRetryConfig_def)
  have r: "IsRetryableError (Some ''connection timeout'')"
    by (simp add: IsRetryableError_def retryablePatterns_def contains_def)
  have c: "fnCalls (RetryWithBackoff (\<lambda>k. False) DefaultRetryConfig
        (\<lambda>n :: nat. (if n < 2 then Some ''connection timeout'' else None, Suc n)) 0) = 3"
    unfolding RetryWithBackoff_def by (simp add: mr ib r)
  have n: "\<forall>k. \<not> (\<lambda>k :: nat. False) k" by simp
  show ?thesis
    using RetryWithBackoff_default [OF n,
        of "\<lambda>n :: nat. (if n < 2 then Some ''connection timeout'' else None, Suc n)" 0] c
    by simp
qed


subsection \<open>Metering dispatch\<close>

lemma sendMeteringRequest_4xx:
  assumes "ReveniumAPIKey c \<noteq> []" and "jsonMarshal payload = Inr body"
    and "newRequest (meteringURL c) = None"
    and "collector n (meteringURL c) body = HTTPResponse status rb"
    and "400 \<le> status" and "status < 500"
  shows "sendMeteringRequest (Some c) jsonMarshal newRequest collector payload n =
    (Some (NewValidationError (''metering API returned '' @ showInt status @ '': '' @ rb) None),
     Suc n)"
  using assms by (simp add: sendMeteringRequest_def)

lemma sendMeteringRequest_transient:
  assumes "ReveniumAPIKey c \<noteq> []" and "jsonMarshal payload = Inr body"
    and "newRequest (meteringURL c) = None"
    and "transient (collector n (meteringURL c) body)"
  shows "\<exists>e. sendMeteringRequest (Some c) jsonMarshal newRequest collector payload n =
      (Some e, Suc n) \<and> \<not> isValidationError (Some e)"
proof (cases "collector n (meteringURL c) body")
  case (HTTPResponse status rb)
  with assms show ?thesis
    by (simp add: sendMeteringRequest_def isValidationError_def NewMeteringError_def)
next
  case (HTTPFailure e)
  with assms show ?thesis
    by (simp add: sendMeteringRequest_def isValidationError_def NewNetworkError_def)
qed

lemma isValidationError_New:
  "isValidationError (Some (NewValidationError msg cause))"
  by (simp add: isValidationError_def NewValidationError_def)

lemma loop_consts: "maxRetries = 3" "initialBackoff = 100 * millisecond"
  by (simp_all add: maxRetries_def initialBackoff_def)

text \<open>
  C4.  Let the metering be configured, the payload serialisable and the request well
  formed, so that requests reach the collector.  If the collector answers the first
  \<open>k < 3\<close> requests with a status of 500 or above or a transport error and the next one
  with a status in 400..499, then \<open>sendMeteringWithRetry\<close> sends exactly \<open>k + 1\<close>
  requests and returns the validation error of that response as it is, not wrapped in a
  metering error.  If the first three requests all meet a status of 500 or above or a
  transport error, all three are sent, after waits of 100 ms and 200 ms, and the result
  is the metering error of the exhausted budget.
\<close>

theorem sendMeteringWithRetry_4xx_not_retried:
  assumes key: "ReveniumAPIKey c \<noteq> []" and js: "jsonMarshal payload = Inr body"
    and req: "newRequest (meteringURL c) = None"
  shows "(k < 3 \<and> (\<forall>i<k. transient (collector i (meteringURL c) body))
          \<and> collector k (meteringURL c) body = HTTPResponse status rb
          \<and> 400 \<le> status \<and> status < 500
        \<longrightarrow> sendMeteringWithRetry (Some c) jsonMarshal newRequest collector payload =
              \<lparr>meterErr = Some (NewValidationError
                   (''metering API returned '' @ showInt status @ '': '' @ rb) None),
               sends = Suc k,
               sleeps = take k [100 * millisecond, 200 * millisecond]\<rparr>)
     \<and> ((\<forall>i<3. transient (collector i (meteringURL c) body))
        \<longrightarrow> sends (sendMeteringWithRetry (Some c) jsonMarshal newRequest collector payload) = 3
          \<and> sleeps (sendMeteringWithRetry (Some c) jsonMarshal newRequest collector payload) =
              [100 * millisecond, 200 * millisecond]
          \<and> (\<exists>cause. meterErr
                (sendMeteringWithRetry (Some c) jsonMarshal newRequest collector payload) =
              Some (NewMeteringError ''metering failed after %d retries'' cause)))"
proof (intro conjI impI)
  note tr = sendMeteringRequest_transient[where jsonMarshal = jsonMarshal
      and newRequest = newRequest and payload = payload and body = body and c = c
      and collector = collector, OF key js req]
  note vl = sendMeteringRequest_4xx[where jsonMarshal = jsonMarshal
      and newRequest = newRequest and payload = payload and body = body and c = c
      and collector = collector, OF key js req]
  {
  assume h: "k < 3 \<and> (\<forall>i<k. transient (collector i (meteringURL c) body))
          \<and> collector k (meteringURL c) body = HTTPResponse status rb
          \<and> 400 \<le> status \<and> status < 500"
  then have v: "sendMeteringRequest (Some c) jsonMarshal newRequest collector payload k =
    (Some (NewValidationError (''metering API returned '' @ showInt status @ '': '' @ rb) None),
     Suc k)"
    using vl by blast
  from h have "k = 0 \<or> k = 1 \<or> k = 2" by arith
  then show "sendMeteringWithRetry (Some c) jsonMarshal newRequest collector payload =
              \<lparr>meterErr = Some (NewValidationError
                   (''metering API returned '' @ showInt status @ '': '' @ rb) None),
               sends = Suc k,
               sleeps = take k [100 * millisecond, 200 * millisecond]\<rparr>"
  proof (elim disjE)
    assume k: "k = 0"
    show ?thesis
      unfolding sendMeteringWithRetry_def
      using v by (simp add: k loop_consts isValidationError_New)
  next
    assume k: "k = 1"
    from h k obtain e0 where
      e0: "sendMeteringRequest (Some c) jsonMarshal newRequest collector payload 0 = (Some e0, Suc 0)"
        "\<not> isValidationError (Some e0)"
      using tr[of 0] by auto
    show ?thesis
      unfolding sendMeteringWithRetry_def
      using v by (simp add: k loop_consts isValidationError_New e0)
  next
    assume k: "k = 2"
    from h k obtain e0 where
      e0: "sendMeteringRequest (Some c) jsonMarshal newRequest collector payload 0 = (Some e0, Suc 0)"
        "\<not> isValidationError (Some e0)"
      using tr[of 0] by auto
    from h k obtain e1 where
      e1: "sendMeteringRequest (Some c) jsonMarshal newRequest collector payload (Suc 0) = (Some e1, Suc (Suc 0))"
        "\<not> isValidationError (Some e1)"
      using tr[of "Suc 0"] by auto
    show ?thesis
      unfolding sendMeteringWithRetry_def
      using v by (simp add: k loop_consts isValidationError_New e0 e1 numeral_2_eq_2)
  qed
  }
  {
  assume h: "\<forall>i<3. transient (collector i (meteringURL c) body)"
  from h obtain e0 where
      e0: "sendMeteringRequest (Some c) jsonMarshal newRequest collector payload 0 = (Some e0, Suc 0)"
        "\<not> isValidationError (Some e0)"
    using tr[of 0] by auto
  from h obtain e1 where
      e1: "sendMeteringRequest (Some c) jsonMarshal newRequest collector payload (Suc 0) = (Some e1, Suc (Suc 0))"
        "\<not> isValidationError (Some e1)"
    using tr[of "Suc 0"] by auto
  from h obtain e2 where
      e2: "sendMeteringRequest (Some c) jsonMarshal newRequest collector payload (Suc (Suc 0)) = (Some e2, Suc (Suc (Suc 0)))"
        "\<not> isValidationError (Some e2)"
    using tr[of "Suc (Suc 0)"] by auto
  have run: "sendMeteringWithRetry (Some c) jsonMarshal newRequest collector payload =
      \<lparr>meterErr = Some (NewMeteringError ''metering failed after %d retries''
                 (Some (Errorf (''retries: '' @ showInt maxRetries @ '', last error: '') (Some e2)))),
       sends = 3, sleeps = [100 * millisecond, 200 * millisecond]\<rparr>"
    unfolding sendMeteringWithRetry_def
    by (simp add: loop_consts e0 e1 e2 numeral_3_eq_3)
  show "sends (sendMeteringWithRetry (Some c) jsonMarshal newRequest collector payload) = 3"
    by (simp add: run)
  show "sleeps (sendMeteringWithRetry (Some c) jsonMarshal newRequest collector payload) =
              [100 * millisecond, 200 * millisecond]"
    by (simp add: run)
  show "\<exists>cause. meterErr
                (sendMeteringWithRetry (Some c) jsonMarshal newRequest collector payload) =
              Some (NewMeteringError ''metering failed after %d retries'' cause)"
    unfolding run by (intro exI) simp
  }
qed

lemma all_less_3: "(\<forall>i<(3::nat). P i) \<longleftrightarrow> P 0 \<and> P (Suc 0) \<and> P (Suc (Suc 0))"
  by (auto simp: less_Suc_eq numeral_3_eq_3)

theorem sendMeteringWithRetry_4xx_not_retried_witness:
  "sendMeteringWithRetry (Some (emptyConfig\<lparr>ReveniumAPIKey := ''hak_key''\<rparr>))
      (\<lambda>p :: unit. Inr ''{}'') (\<lambda>url. None)
      (\<lambda>n url b. if n = 0 then HTTPResponse 503 ''busy'' else HTTPResponse 422 ''bad field'') ()
    = \<lparr>meterErr = Some (NewValidationError ''metering API returned 422: bad field'' None),
       sends = 2, sleeps = [100 * millisecond]\<rparr>
   \<and> sends (sendMeteringWithRetry (Some (emptyConfig\<lparr>ReveniumAPIKey := ''hak_key''\<rparr>))
      (\<lambda>p :: unit. Inr ''{}'') (\<lambda>url. None)
      (\<lambda>n url b. if n = 1 then HTTPFailure (ErrorString ''connection reset'')
                  else HTTPResponse 500 ''internal error'') ()) = 3"
  using sendMeteringWithRetry_4xx_not_retried
      [of "emptyConfig\<lparr>ReveniumAPIKey := ''hak_key''\<rparr>" "\<lambda>p :: unit. Inr ''{}''" "()" "''{}''"
        "\<lambda>url. None" 1
        "\<lambda>n url b. if n = 0 then HTTPResponse 503 ''busy'' else HTTPResponse 422 ''bad field''"
        422 "''bad field''"]
    sendMeteringWithRetry_4xx_not_retried
      [of "emptyConfig\<lparr>ReveniumAPIKey := ''hak_key''\<rparr>" "\<lambda>p :: unit. Inr ''{}''" "()" "''{}''"
        "\<lambda>url. None" 0
        "\<lambda>n url b. if n = 1 then HTTPFailure (ErrorString ''connection reset'')
                  else HTTPResponse 500 ''internal error''"
        0 "[]"]
  by (simp add: emptyConfig_def showInt_def digitChar_def all_less_3)

subsection \<open>Truncation of captured text\<close>

declare ValidString.simps [simp del]
declare decodeRunes.simps [simp del]

lemma seqLen_le: "seqLen s \<le> length s"
  by (cases s) (auto split: list.splits)

lemma seqLen_append:
  assumes "seqLen a \<noteq> 0"
  shows "seqLen (a @ b) = seqLen a"
proof (cases a)
  case Nil
  with assms show ?thesis by simp
next
  case a0: (Cons c0 r0)
  show ?thesis
  proof (cases r0)
    case Nil
    with a0 assms show ?thesis by (simp split: if_splits)
  next
    case a1: (Cons c1 r1)
    show ?thesis
    proof (cases r1)
      case Nil
      with a0 a1 assms show ?thesis by (simp split: if_splits)
    next
      case a2: (Cons c2 r2)
      show ?thesis
      proof (cases r2)
        case Nil
        with a0 a1 a2 assms show ?thesis by (simp split: if_splits)
      next
        case (Cons c3 r3)
        with a0 a1 a2 show ?thesis by simp
      qed
    qed
  qed
qed

lemma ValidString_Nil: "ValidString []"
  by (simp add: ValidString.simps)

lemma ValidString_step:
  "s \<noteq> [] \<Longrightarrow> ValidString s = (seqLen s \<noteq> 0 \<and> ValidString (drop (seqLen s) s))"
  by (subst ValidString.simps) simp

lemma ValidString_append:
  "ValidString a \<Longrightarrow> ValidString (a @ b) = ValidString b"
proof (induction a rule: ValidString.induct)
  case (1 s)
  show ?case
  proof (cases "s = []")
    case True
    then show ?thesis by simp
  next
    case False
    with "1.prems" have n: "seqLen s \<noteq> 0" and v: "ValidString (drop (seqLen s) s)"
      by (simp_all add: ValidString_step)
    have ih: "ValidString (drop (seqLen s) s @ b) = ValidString b"
      using "1.IH"[OF False n v] .
    have "ValidString (s @ b) = ValidString (drop (seqLen s) (s @ b))"
      using False n by (simp add: ValidString_step[of "s @ b"] seqLen_append)
    also have "drop (seqLen s) (s @ b) = drop (seqLen s) s @ b"
      using seqLen_le[of s] by simp
    finally show ?thesis using ih by simp
  qed
qed

lemma byteOf_char_of: "x < 256 \<Longrightarrow> byteOf (char_of x) = x"
  by (simp add: byteOf_def)

lemma valid1: "byteOf c0 < 0x80 \<Longrightarrow> ValidString [c0]"
  by (simp add: ValidString_step ValidString_Nil)

lemma valid2:
  "0xC2 \<le> byteOf c0 \<Longrightarrow> byteOf c0 \<le> 0xDF \<Longrightarrow> inRange 0x80 0xBF c1 \<Longrightarrow> ValidString [c0, c1]"
  by (simp add: ValidString_step ValidString_Nil)

lemma valid3:
  "0xE0 \<le> byteOf c0 \<Longrightarrow> byteOf c0 \<le> 0xEF
   \<Longrightarrow> inRange (acceptLo (byteOf c0)) (acceptHi (byteOf c0)) c1 \<Longrightarrow> inRange 0x80 0xBF c2
   \<Longrightarrow> ValidString [c0, c1, c2]"
  by (simp add: ValidString_step ValidString_Nil)

lemma valid4:
  "0xF0 \<le> byteOf c0 \<Longrightarrow> byteOf c0 \<le> 0xF4
   \<Longrightarrow> inRange (acceptLo (byteOf c0)) (acceptHi (byteOf c0)) c1 \<Longrightarrow> inRange 0x80 0xBF c2
   \<Longrightarrow> inRange 0x80 0xBF c3
   \<Longrightarrow> ValidString [c0, c1, c2, c3]"
  by (simp add: ValidString_step ValidString_Nil)

lemma split_sextets:
  fixes r :: nat
  obtains q m l where "r = 4096 * q + 64 * m + l" "m < 64" "l < 64"
    "r div 4096 = q" "(r div 64) mod 64 = m" "r mod 64 = l"
proof -
  define A where "A = r div 64"
  define l where "l = r mod 64"
  define m where "m = A mod 64"
  define q where "q = A div 64"
  have 1: "r = 64 * A + l" by (simp add: A_def l_def)
  have 2: "A = 64 * q + m" by (simp add: q_def m_def)
  have 3: "r div 4096 = q" by (simp add: q_def A_def div_mult2_eq[symmetric])
  have 4: "r = 4096 * q + 64 * m + l" using 1 2 by linarith
  have 5: "m < 64" "l < 64" by (simp_all add: m_def l_def)
  show thesis
    using that[OF 4 5 3] by (simp add: m_def A_def l_def)
qed

lemma ValidString_encode3:
  assumes "0x800 \<le> r" "r \<le> 0xFFFF" "\<not> surrogate r"
  shows "ValidString (encode3 r)"
proof -
  obtain q m l where d: "r = 4096 * q + 64 * m + l" "m < 64" "l < 64"
    "r div 4096 = q" "(r div 64) mod 64 = m" "r mod 64 = l"
    by (rule split_sextets)
  have q: "q < 16" using assms d(1-3) by linarith
  have lo: "q = 0 \<Longrightarrow> 32 \<le> m" using assms d(1-3) by linarith
  have hi: "q = 13 \<Longrightarrow> m < 32"
    using assms d(1-3) unfolding surrogate_def by linarith
  show ?thesis
    unfolding encode3_def d(4-6)
    apply (rule valid3)
    using q lo hi d(2,3)
       apply (auto simp add: byteOf_char_of inRange_def acceptLo_def acceptHi_def)
    done
qed

lemma split_sextets4:
  fixes r :: nat
  obtains p q m l where "r = 262144 * p + 4096 * q + 64 * m + l" "q < 64" "m < 64" "l < 64"
    "r div 262144 = p" "(r div 4096) mod 64 = q" "(r div 64) mod 64 = m" "r mod 64 = l"
proof -
  obtain q' m l where d: "r = 4096 * q' + 64 * m + l" "m < 64" "l < 64"
    "r div 4096 = q'" "(r div 64) mod 64 = m" "r mod 64 = l"
    by (rule split_sextets)
  define p where "p = q' div 64"
  define q where "q = q' mod 64"
  have 1: "q' = 64 * p + q" by (simp add: p_def q_def)
  have 2: "r div 262144 = p"
    unfolding p_def d(4)[symmetric] by (simp add: div_mult2_eq[symmetric])
  have 3: "r = 262144 * p + 4096 * q + 64 * m + l" using d(1) 1 by linarith
  have 4: "q < 64" by (simp add: q_def)
  have 5: "(r div 4096) mod 64 = q" by (simp add: q_def d(4))
  show thesis
    using that[OF 3 4 d(2) d(3) 2 5 d(5) d(6)] .
qed

lemma ValidString_encodeRune: "ValidString (encodeRune r)"
proof -
  have e: "ValidString (encode3 RuneError)"
    by (rule ValidString_encode3) (simp_all add: RuneError_def surrogate_def)
  consider (a) "r < 0x80" | (b) "0x80 \<le> r" "r < 0x800"
    | (c) "0x800 \<le> r" "surrogate r \<or> 0x10FFFF < r"
    | (d) "0x800 \<le> r" "\<not> surrogate r" "r \<le> 0xFFFF"
    | (f) "0xFFFF < r" "\<not> surrogate r" "r \<le> 0x10FFFF"
    by linarith
  then show ?thesis
  proof cases
    case a
    then show ?thesis
      by (simp add: encodeRune_def valid1 byteOf_char_of)
  next
    case b
    have "r div 64 < 32" "2 \<le> r div 64" using b by simp_all
    moreover have "r mod 64 < 64" by simp
    ultimately have "ValidString [char_of (0xC0 + r div 64), char_of (0x80 + r mod 64)]"
      by (intro valid2) (simp_all add: byteOf_char_of inRange_def)
    with b show ?thesis by (simp add: encodeRune_def)
  next
    case c
    with e show ?thesis by (simp add: encodeRune_def)
  next
    case d
    with ValidString_encode3[of r] show ?thesis by (simp add: encodeRune_def)
  next
    case f
    obtain p q m l where s: "r = 262144 * p + 4096 * q + 64 * m + l" "q < 64" "m < 64" "l < 64"
      "r div 262144 = p" "(r div 4096) mod 64 = q" "(r div 64) mod 64 = m" "r mod 64 = l"
      by (rule split_sextets4)
    have p: "p \<le> 4" using f s(1-4) by linarith
    have lo: "p = 0 \<Longrightarrow> 16 \<le> q" using f s(1-4) by linarith
    have hi: "p = 4 \<Longrightarrow> q < 16" using f s(1-4) by linarith
    have "ValidString [char_of (0xF0 + p), char_of (0x80 + q), char_of (0x80 + m),
        char_of (0x80 + l)]"
      apply (rule valid4)
      using p lo hi s(2-4)
          apply (auto simp add: byteOf_char_of inRange_def acceptLo_def acceptHi_def)
      done
    with f show ?thesis by (simp add: encodeRune_def s(5-8))
  qed
qed


lemma seqLen_cases:
  assumes "seqLen s \<noteq> 0"
  obtains (one) c0 t where "s = c0 # t" "seqLen s = 1" "byteOf c0 < 0x80"
  | (two) c0 c1 t where "s = c0 # c1 # t" "seqLen s = 2" "0xC2 \<le> byteOf c0" "byteOf c0 \<le> 0xDF"
      "inRange 0x80 0xBF c1"
  | (three) c0 c1 c2 t where "s = c0 # c1 # c2 # t" "seqLen s = 3"
      "0xE0 \<le> byteOf c0" "byteOf c0 \<le> 0xEF"
      "inRange (acceptLo (byteOf c0)) (acceptHi (byteOf c0)) c1" "inRange 0x80 0xBF c2"
  | (four) c0 c1 c2 c3 t where "s = c0 # c1 # c2 # c3 # t" "seqLen s = 4"
      "0xF0 \<le> byteOf c0" "byteOf c0 \<le> 0xF4"
      "inRange (acceptLo (byteOf c0)) (acceptHi (byteOf c0)) c1" "inRange 0x80 0xBF c2"
      "inRange 0x80 0xBF c3"
proof (cases s)
  case Nil
  with assms show ?thesis by simp
next
  case a0: (Cons c0 r0)
  show ?thesis
  proof (cases r0)
    case Nil
    with a0 assms one show ?thesis by (simp split: if_splits)
  next
    case a1: (Cons c1 r1)
    show ?thesis
    proof (cases r1)
      case Nil
      with a0 a1 assms one two show ?thesis by (simp split: if_splits)
    next
      case a2: (Cons c2 r2)
      show ?thesis
      proof (cases r2)
        case Nil
        with a0 a1 a2 assms one two three show ?thesis by (simp split: if_splits)
      next
        case (Cons c3 r3)
        with a0 a1 a2 assms one two three four show ?thesis by (simp split: if_splits)
      qed
    qed
  qed
qed

lemma mod_offset:
  fixes b :: nat
  assumes "k * n \<le> b" "b < k * n + n"
  obtains d where "b = k * n + d" "d < n" "b mod n = d"
proof -
  from assms(1) obtain d where d: "b = k * n + d"
    using le_Suc_ex by blast
  with assms(2) have "d < n" by simp
  moreover from this d have "b mod n = d" by simp
  ultimately show thesis using that d by blast
qed

lemma scalar3:
  fixes x y z :: nat
  assumes "x \<le> 15" "y < 64" "z < 64" "x = 13 \<Longrightarrow> y < 32"
  shows "\<not> surrogate (x * 4096 + y * 64 + z) \<and> x * 4096 + y * 64 + z \<le> 0x10FFFF"
proof -
  consider "x \<le> 12" | "x = 13" | "14 \<le> x" by linarith
  then show ?thesis
  proof cases
    case 1
    then show ?thesis unfolding surrogate_def using assms(2,3) by linarith
  next
    case 2
    then show ?thesis unfolding surrogate_def using assms(2,3,4) by simp
  next
    case 3
    then show ?thesis unfolding surrogate_def using assms(1,2,3) by linarith
  qed
qed

lemma scalar4:
  fixes w x y z :: nat
  assumes "w \<le> 4" "x < 64" "y < 64" "z < 64" "w = 4 \<Longrightarrow> x < 16" "w = 0 \<Longrightarrow> 16 \<le> x"
  shows "\<not> surrogate (w * 262144 + x * 4096 + y * 64 + z)
    \<and> w * 262144 + x * 4096 + y * 64 + z \<le> 0x10FFFF"
proof -
  consider "w = 0" | "1 \<le> w" "w \<le> 3" | "w = 4" using assms(1) by linarith
  then show ?thesis
  proof cases
    case 1
    then show ?thesis unfolding surrogate_def using assms(2,3,4,6) by simp
  next
    case 2
    then show ?thesis unfolding surrogate_def using assms(2,3,4) by linarith
  next
    case 3
    then show ?thesis unfolding surrogate_def using assms(2,3,4,5) by simp
  qed
qed

lemma runeValue_scalar:
  assumes "seqLen s \<noteq> 0"
  shows "\<not> surrogate (runeValue (take (seqLen s) s))
    \<and> runeValue (take (seqLen s) s) \<le> 0x10FFFF"
  using assms
proof (cases rule: seqLen_cases)
  case (one c0 t)
  then show ?thesis by (simp add: surrogate_def)
next
  case (two c0 c1 t)
  have "byteOf c0 mod 32 < 32" "byteOf c1 mod 64 < 64" by simp_all
  then have "(byteOf c0 mod 32) * 64 + byteOf c1 mod 64 < 2048" by linarith
  with two show ?thesis by (simp add: surrogate_def)
next
  case (three c0 c1 c2 t)
  from three(3,4) obtain x where x: "byteOf c0 = 14 * 16 + x" "x < 16" "byteOf c0 mod 16 = x"
    by (auto intro: mod_offset[of 14 16 "byteOf c0"])
  have r1: "2 * 64 \<le> byteOf c1" "byteOf c1 < 2 * 64 + 64"
    using three(5) by (auto simp: inRange_def acceptLo_def acceptHi_def split: if_splits)
  then obtain y where y: "byteOf c1 = 2 * 64 + y" "y < 64" "byteOf c1 mod 64 = y"
    by (auto intro: mod_offset[of 2 64 "byteOf c1"])
  have hi: "x = 13 \<Longrightarrow> y < 32"
    using three(5) x(1) y(1) by (simp add: inRange_def acceptHi_def)
  have "\<not> surrogate (x * 4096 + y * 64 + byteOf c2 mod 64)
    \<and> x * 4096 + y * 64 + byteOf c2 mod 64 \<le> 0x10FFFF"
    by (rule scalar3) (use x(2) y(2) hi in simp_all)
  with three(1,2) show ?thesis by (simp add: x(3) y(3))
next
  case (four c0 c1 c2 c3 t)
  from four(3,4) obtain w where w: "byteOf c0 = 30 * 8 + w" "w < 8" "byteOf c0 mod 8 = w"
    by (auto intro: mod_offset[of 30 8 "byteOf c0"])
  have r1: "2 * 64 \<le> byteOf c1" "byteOf c1 < 2 * 64 + 64"
    using four(5) by (auto simp: inRange_def acceptLo_def acceptHi_def split: if_splits)
  then obtain x where x: "byteOf c1 = 2 * 64 + x" "x < 64" "byteOf c1 mod 64 = x"
    by (auto intro: mod_offset[of 2 64 "byteOf c1"])
  have w4: "w \<le> 4" using four(4) w(1) by simp
  have hi: "w = 4 \<Longrightarrow> x < 16"
    using four(5) w(1) x(1) by (simp add: inRange_def acceptHi_def)
  have lo: "w = 0 \<Longrightarrow> 16 \<le> x"
    using four(5) w(1) x(1) by (simp add: inRange_def acceptLo_def)
  have "\<not> surrogate (w * 262144 + x * 4096 + (byteOf c2 mod 64) * 64 + byteOf c3 mod 64)
    \<and> w * 262144 + x * 4096 + (byteOf c2 mod 64) * 64 + byteOf c3 mod 64 \<le> 0x10FFFF"
    by (rule scalar4) (use w4 x(2) hi lo in simp_all)
  with four(1,2) show ?thesis by (simp add: w(3) x(3))
qed

lemma RuneLen_encodeRune:
  assumes "\<not> surrogate r" "r \<le> 0x10FFFF"
  shows "RuneLen r = int (length (encodeRune r))"
  using assms by (simp add: RuneLen_def encodeRune_def encode3_def)

lemma decodeRunes_scalar:
  "r \<in> set (decodeRunes s) \<Longrightarrow> \<not> surrogate r \<and> r \<le> 0x10FFFF"
proof (induction s rule: decodeRunes.induct)
  case (1 s)
  show ?case
  proof (cases "s = []")
    case True
    with "1.prems" show ?thesis by (simp add: decodeRunes.simps)
  next
    case ne: False
    show ?thesis
    proof (cases "seqLen s = 0")
      case True
      with ne "1.prems" have "r = RuneError \<or> r \<in> set (decodeRunes (tl s))"
        by (subst (asm) decodeRunes.simps) simp
      then show ?thesis
        using "1.IH"(1)[OF ne True] by (auto simp: RuneError_def surrogate_def)
    next
      case False
      with ne "1.prems" have "r = runeValue (take (seqLen s) s)
          \<or> r \<in> set (decodeRunes (drop (seqLen s) s))"
        by (subst (asm) decodeRunes.simps) simp
      then show ?thesis
        using "1.IH"(2)[OF ne False] runeValue_scalar[OF False] by auto
    qed
  qed
qed

lemma appendRunes_length:
  assumes "\<forall>r \<in> set runes. \<not> surrogate r \<and> r \<le> 0x10FFFF"
    and "length result \<le> maxBytes"
  shows "length (appendRunes runes maxBytes result) \<le> maxBytes"
  using assms
proof (induction runes arbitrary: result)
  case Nil
  then show ?case by simp
next
  case (Cons r runes)
  then have l: "RuneLen r = int (length (encodeRune r))"
    by (simp add: RuneLen_encodeRune)
  show ?case
  proof (cases "int maxBytes < int (length result) + RuneLen r")
    case True
    with Cons.prems show ?thesis by simp
  next
    case False
    then have "length (result @ encodeRune r) \<le> maxBytes" using l by simp
    with Cons False show ?thesis by simp
  qed
qed

lemma appendRunes_valid:
  "ValidString result \<Longrightarrow> ValidString (appendRunes runes maxBytes result)"
proof (induction runes arbitrary: result)
  case Nil
  then show ?case by simp
next
  case (Cons r runes)
  have "ValidString (result @ encodeRune r)"
    using Cons.prems ValidString_encodeRune by (simp add: ValidString_append)
  with Cons show ?case by simp
qed

lemma backUp_le: "backUp s k \<le> k"
  by (induction k) auto

lemma truncateUTF8Safe_length:
  "length s > maxBytes \<Longrightarrow> length (truncateUTF8Safe s maxBytes) \<le> maxBytes"
  using backUp_le[of s maxBytes]
    appendRunes_length[of "decodeRunes s" "[]" "backUp s maxBytes"] decodeRunes_scalar[of _ s]
  by (auto simp add: truncateUTF8Safe_def Let_def)

lemma truncateUTF8Safe_valid:
  "length s > maxBytes \<Longrightarrow> ValidString (truncateUTF8Safe s maxBytes)"
  using appendRunes_valid[OF ValidString_Nil]
  by (auto simp add: truncateUTF8Safe_def Let_def)

lemma truncateUTF8Safe_short:
  "length s \<le> maxBytes \<Longrightarrow> truncateUTF8Safe s maxBytes = s"
  by (simp add: truncateUTF8Safe_def)


lemma ValidString_marker: "ValidString TruncationMarker"
  by (simp add: TruncationMarker_def ValidString_step ValidString_Nil byteOf_def)

lemma capContent_long:
  assumes "MaxPromptLength < length content"
  shows "length (OutputResponse (capContent content d)) \<le> MaxPromptLength"
    "ValidString (OutputResponse (capContent content d))"
    "suffix TruncationMarker (OutputResponse (capContent content d))"
    "PromptsTruncated (capContent content d)"
proof -
  let ?k = "MaxPromptLength - length TruncationMarker"
  have k: "?k < length content" "?k + length TruncationMarker = MaxPromptLength"
    using assms by (simp_all add: MaxPromptLength_def TruncationMarker_def)
  have o: "OutputResponse (capContent content d) =
      truncateUTF8Safe content ?k @ TruncationMarker"
    using assms by (simp add: capContent_def)
  show "length (OutputResponse (capContent content d)) \<le> MaxPromptLength"
    unfolding o using truncateUTF8Safe_length[OF k(1)] k(2) by simp
  show "ValidString (OutputResponse (capContent content d))"
    unfolding o using truncateUTF8Safe_valid[OF k(1)] ValidString_marker
    by (simp add: ValidString_append)
  show "suffix TruncationMarker (OutputResponse (capContent content d))"
    unfolding o by (rule suffix_appendI) simp
  show "PromptsTruncated (capContent content d)"
    using assms by (simp add: capContent_def)
qed

lemma capContent_short:
  assumes "length content \<le> MaxPromptLength"
  shows "OutputResponse (capContent content d) = content"
    "PromptsTruncated (capContent content d) = PromptsTruncated d"
  using assms by (simp_all add: capContent_def)

lemma ExtractStreaming_cap:
  "OutputResponse (ExtractStreamingResponseContent s pt)
     = OutputResponse (capContent s (emptyPromptData pt))"
  "PromptsTruncated (ExtractStreamingResponseContent s pt)
     = PromptsTruncated (capContent s (emptyPromptData pt))"
  by (simp_all add: ExtractStreamingResponseContent_def capContent_def emptyPromptData_def
      MaxPromptLength_def)

lemma ExtractResponse_cap:
  "OutputResponse (ExtractResponseContent resp pt)
     = OutputResponse (capContent (responseText resp) (emptyPromptData pt))"
  "PromptsTruncated (ExtractResponseContent resp pt)
     = PromptsTruncated (capContent (responseText resp) (emptyPromptData pt))"
  by (simp_all add: ExtractResponseContent_def responseText_def capContent_def emptyPromptData_def
      MaxPromptLength_def textPartsOf_def split: option.splits)

text \<open>The test of the backing-up loop, \<open>b & 0xC0 == 0x80\<close>, is the range of continuation bytes.\<close>

lemma and_double: "(m::nat) AND (2 * k) = 2 * ((m div 2) AND k)"
  by (subst and_nat_unfold) auto

lemma and_192: "(m::nat) AND 192 = 64 * ((m div 64) AND 3)"
proof -
  have "m AND 192 = m AND (2 * (2 * (2 * (2 * (2 * (2 * 3))))))" by simp
  also have "\<dots> = 2 * (2 * (2 * (2 * (2 * (2 *
      ((m div 2 div 2 div 2 div 2 div 2 div 2) AND 3))))))"
    by (simp only: and_double)
  also have "\<dots> = 64 * ((m div 2 div 2 div 2 div 2 div 2 div 2) AND 3)"
    by simp
  also have "m div 2 div 2 div 2 div 2 div 2 div 2 = m div 64"
    by (simp add: div_mult2_eq[symmetric])
  finally show ?thesis .
qed

lemma cont_nat:
  assumes "(n::nat) < 256"
  shows "(n AND 0xC0 = 0x80) = (0x80 \<le> n \<and> n \<le> 0xBF)"
proof -
  define q where "q = n div 64"
  have q: "q < 4" using assms by (simp add: q_def)
  then consider "q = 0" | "q = 1" | "q = 2" | "q = 3" by linarith
  then have a: "q AND 3 = q" by cases simp_all
  have r: "(q = 2) = (128 \<le> n \<and> n \<le> 191)"
    unfolding q_def by linarith
  show ?thesis
    using and_192[of n] a r by (simp add: q_def)
qed

lemma isCont_range: "(byteOf c AND 0xC0 = 0x80) = inRange 0x80 0xBF c"
  using cont_nat[of "byteOf c"] by (simp add: byteOf_def inRange_def)

text \<open>
  In a well-formed sequence the first byte is no continuation byte and the others are;
  the sequence alone is a valid string.
\<close>

lemma accept_cont:
  "inRange (acceptLo b) (acceptHi b) c \<Longrightarrow> inRange 0x80 0xBF c"
  by (auto simp: inRange_def acceptLo_def acceptHi_def split: if_splits)

lemma seq_shape:
  assumes "seqLen s \<noteq> 0"
  shows "seqLen s \<le> 4 \<and> \<not> inRange 0x80 0xBF (s ! 0)
    \<and> (\<forall>k. 0 < k \<and> k < seqLen s \<longrightarrow> inRange 0x80 0xBF (s ! k))
    \<and> ValidString (take (seqLen s) s)"
  using assms
proof (cases rule: seqLen_cases)
  case (one c0 t)
  then show ?thesis
    by (simp add: inRange_def valid1)
next
  case (two c0 c1 t)
  have "\<forall>k. 0 < k \<and> k < (2::nat) \<longrightarrow> k = 1" by auto
  with two show ?thesis
    by (auto simp: inRange_def valid2)
next
  case (three c0 c1 c2 t)
  have k: "\<forall>k. 0 < k \<and> k < (3::nat) \<longrightarrow> k = 1 \<or> k = 2" by auto
  have v: "ValidString [c0, c1, c2]" using three by (intro valid3)
  have c: "inRange 0x80 0xBF c1" using three(5) by (rule accept_cont)
  have n: "\<not> inRange 0x80 0xBF c0" using three(3) by (simp add: inRange_def)
  show ?thesis
    using k v c n three(1,2,6) by (auto simp: numeral_2_eq_2)
next
  case (four c0 c1 c2 c3 t)
  have k: "\<forall>k. 0 < k \<and> k < (4::nat) \<longrightarrow> k = 1 \<or> k = 2 \<or> k = 3" by auto
  have v: "ValidString [c0, c1, c2, c3]" using four by (intro valid4)
  have c: "inRange 0x80 0xBF c1" using four(5) by (rule accept_cont)
  have n: "\<not> inRange 0x80 0xBF c0" using four(3) by (simp add: inRange_def)
  show ?thesis
    using k v c n four(1,2,6,7) by (auto simp: numeral_2_eq_2 numeral_3_eq_3)
qed

text \<open>
  In a valid string, cutting in front of a byte that is no continuation byte leaves a
  valid string, and every position is less than four bytes after such a byte.
\<close>

lemma boundary_valid:
  "ValidString s \<Longrightarrow> k < length s \<Longrightarrow> \<not> inRange 0x80 0xBF (s ! k) \<Longrightarrow> ValidString (take k s)"
proof (induction s arbitrary: k rule: ValidString.induct)
  case (1 s)
  from "1.prems"(2) have ne: "s \<noteq> []" by auto
  with "1.prems"(1) have n: "seqLen s \<noteq> 0" and v: "ValidString (drop (seqLen s) s)"
    by (simp_all add: ValidString_step)
  from seq_shape[OF n] have sh: "seqLen s \<le> 4" "\<not> inRange 0x80 0xBF (s ! 0)"
    "\<forall>k. 0 < k \<and> k < seqLen s \<longrightarrow> inRange 0x80 0xBF (s ! k)"
    "ValidString (take (seqLen s) s)"
    by blast+
  show ?case
  proof (cases "k < seqLen s")
    case True
    with sh(3) "1.prems"(3) have "k = 0" by auto
    then show ?thesis by (simp add: ValidString_Nil)
  next
    case False
    then have kn: "seqLen s \<le> k" by simp
    have i: "drop (seqLen s) s ! (k - seqLen s) = s ! k"
      using kn "1.prems"(2) by simp
    have "ValidString (take (k - seqLen s) (drop (seqLen s) s))"
      using "1.IH"[OF ne n v, of "k - seqLen s"] "1.prems"(2,3) kn i by simp
    moreover have "take k s = take (seqLen s) s @ take (k - seqLen s) (drop (seqLen s) s)"
      using kn by (metis le_add_diff_inverse take_add)
    ultimately show ?thesis
      using sh(4) by (simp add: ValidString_append)
  qed
qed

lemma lead_near:
  "ValidString s \<Longrightarrow> k < length s \<Longrightarrow> \<exists>b \<le> k. k < b + 4 \<and> \<not> inRange 0x80 0xBF (s ! b)"
proof (induction s arbitrary: k rule: ValidString.induct)
  case (1 s)
  from "1.prems"(2) have ne: "s \<noteq> []" by auto
  with "1.prems"(1) have n: "seqLen s \<noteq> 0" and v: "ValidString (drop (seqLen s) s)"
    by (simp_all add: ValidString_step)
  from seq_shape[OF n] have sh: "seqLen s \<le> 4" "\<not> inRange 0x80 0xBF (s ! 0)"
    "\<forall>k. 0 < k \<and> k < seqLen s \<longrightarrow> inRange 0x80 0xBF (s ! k)"
    "ValidString (take (seqLen s) s)"
    by blast+
  show ?case
  proof (cases "k < seqLen s")
    case True
    with sh(1,2) show ?thesis by (intro exI[of _ 0]) simp
  next
    case False
    then have kn: "seqLen s \<le> k" by simp
    have "k - seqLen s < length (drop (seqLen s) s)"
      using "1.prems"(2) kn by simp
    from "1.IH"[OF ne n v this]
    obtain b where b: "b \<le> k - seqLen s" "k - seqLen s < b + 4"
      "\<not> inRange 0x80 0xBF (drop (seqLen s) s ! b)"
      by blast
    have "drop (seqLen s) s ! b = s ! (seqLen s + b)"
      using b(1) kn "1.prems"(2) by simp
    with b kn show ?thesis
      by (intro exI[of _ "seqLen s + b"]) auto
  qed
qed

lemma backUp_ge:
  "b \<le> k \<Longrightarrow> \<not> inRange 0x80 0xBF (s ! b) \<Longrightarrow> b \<le> backUp s k"
proof (induction k)
  case 0
  then show ?case by simp
next
  case (Suc k)
  show ?case
  proof (cases "b = Suc k")
    case True
    with Suc.prems(2) show ?thesis by (simp add: isCont_range)
  next
    case False
    with Suc show ?thesis by (simp add: isCont_range)
  qed
qed

lemma backUp_stop:
  "backUp s k = 0 \<or> \<not> inRange 0x80 0xBF (s ! backUp s k) \<or> length s \<le> backUp s k"
  by (induction k) (auto simp: isCont_range)

lemma truncateUTF8Safe_wellformed:
  assumes "ValidString s" "maxBytes < length s"
  shows "truncateUTF8Safe s maxBytes = take (backUp s maxBytes) s"
    "ValidString (take (backUp s maxBytes) s)"
    "maxBytes \<le> backUp s maxBytes + 3" "backUp s maxBytes \<le> maxBytes"
proof -
  have le: "backUp s maxBytes \<le> maxBytes" by (rule backUp_le)
  then have lt: "backUp s maxBytes < length s" using assms(2) by simp
  show v: "ValidString (take (backUp s maxBytes) s)"
    using backUp_stop[of s maxBytes] lt boundary_valid[OF assms(1) lt]
    by (auto simp: ValidString_Nil)
  show "truncateUTF8Safe s maxBytes = take (backUp s maxBytes) s"
    using assms(2) v by (simp add: truncateUTF8Safe_def Let_def)
  from lead_near[OF assms] obtain b where
    "b \<le> maxBytes" "maxBytes < b + 4" "\<not> inRange 0x80 0xBF (s ! b)" by auto
  with backUp_ge[of b maxBytes s] show "maxBytes \<le> backUp s maxBytes + 3" by simp
  show "backUp s maxBytes \<le> maxBytes" by (rule le)
qed

text \<open>For any bytes, the cut text is a prefix of the input or of its re-encoded runes.\<close>

lemma appendRunes_take:
  "\<exists>j. appendRunes runes maxBytes result = result @ concat (map encodeRune (take j runes))"
proof (induction runes arbitrary: result)
  case Nil
  then show ?case by simp
next
  case (Cons r runes)
  show ?case
  proof (cases "int maxBytes < int (length result) + RuneLen r")
    case True
    then show ?thesis by (intro exI[of _ 0]) simp
  next
    case False
    from Cons[of "result @ encodeRune r"] obtain j where
      "appendRunes runes maxBytes (result @ encodeRune r)
        = (result @ encodeRune r) @ concat (map encodeRune (take j runes))" by blast
    with False show ?thesis by (intro exI[of _ "Suc j"]) simp
  qed
qed

lemma truncateUTF8Safe_source:
  "prefix (truncateUTF8Safe s maxBytes) s
   \<or> (\<exists>j. truncateUTF8Safe s maxBytes = concat (map encodeRune (take j (decodeRunes s))))"
  using appendRunes_take[of "decodeRunes s" "backUp s maxBytes" "[]"]
  by (auto simp add: truncateUTF8Safe_def Let_def take_is_prefix)

lemma capturedBody_append: "capturedBody (xs @ TruncationMarker) = xs"
  by (simp add: capturedBody_def)

lemma decodeRunes_length: "length (decodeRunes s) \<le> length s"
proof (induction s rule: decodeRunes.induct)
  case (1 s)
  show ?case
  proof (cases "s = []")
    case True
    then show ?thesis by (simp add: decodeRunes.simps)
  next
    case ne: False
    show ?thesis
    proof (cases "seqLen s = 0")
      case True
      obtain c t where st: "s = c # t" using ne by (cases s) auto
      have "length (decodeRunes s) = Suc (length (decodeRunes (tl s)))"
        using ne True by (subst decodeRunes.simps) simp
      moreover have "length (decodeRunes (tl s)) \<le> length (tl s)"
        using "1.IH"(1)[OF ne True] .
      ultimately show ?thesis unfolding st by simp
    next
      case False
      have "length (decodeRunes s) = Suc (length (decodeRunes (drop (seqLen s) s)))"
        using ne False by (subst decodeRunes.simps) simp
      moreover have "length (decodeRunes (drop (seqLen s) s)) \<le> length s - seqLen s"
        using "1.IH"(2)[OF ne False] by simp
      moreover have "0 < seqLen s" "seqLen s \<le> length s"
        using False seqLen_le[of s] by simp_all
      ultimately show ?thesis by linarith
    qed
  qed
qed

lemma RuneCount_long:
  "MaxPromptLength < RuneCountInString s \<Longrightarrow> MaxPromptLength < length s"
  using decodeRunes_length[of s] by (simp add: RuneCountInString_def)

lemma capContent_wellformed:
  assumes "MaxPromptLength < length content" "ValidString content"
  shows "OutputResponse (capContent content d)
      = capturedBody (OutputResponse (capContent content d)) @ TruncationMarker"
    "capturedBody (OutputResponse (capContent content d))
      = take (length (capturedBody (OutputResponse (capContent content d)))) content"
    "ValidString (capturedBody (OutputResponse (capContent content d)))"
    "MaxPromptLength \<le> length (OutputResponse (capContent content d)) + 3"
proof -
  let ?k = "MaxPromptLength - length TruncationMarker"
  have k: "?k < length content" "?k + length TruncationMarker = MaxPromptLength"
    using assms by (simp_all add: MaxPromptLength_def TruncationMarker_def)
  note w = truncateUTF8Safe_wellformed[OF assms(2) k(1)]
  have o: "OutputResponse (capContent content d) = take (backUp content ?k) content @ TruncationMarker"
    using assms(1) w(1) by (simp add: capContent_def)
  have b: "capturedBody (OutputResponse (capContent content d)) = take (backUp content ?k) content"
    unfolding o by (rule capturedBody_append)
  have l: "length (take (backUp content ?k) content) = backUp content ?k"
    using w(4) k(1) by simp
  have m: "min (length content) (backUp content ?k) = backUp content ?k"
    using w(4) k(1) by linarith
  show "OutputResponse (capContent content d)
      = capturedBody (OutputResponse (capContent content d)) @ TruncationMarker"
    unfolding b by (rule o)
  show "capturedBody (OutputResponse (capContent content d))
      = take (length (capturedBody (OutputResponse (capContent content d)))) content"
    unfolding b length_take m ..
  show "ValidString (capturedBody (OutputResponse (capContent content d)))"
    unfolding b by (rule w(2))
  show "MaxPromptLength \<le> length (OutputResponse (capContent content d)) + 3"
    unfolding o using w(3) k(2) l by simp
qed

lemma capContent_source:
  assumes "MaxPromptLength < length content"
  shows "prefix (capturedBody (OutputResponse (capContent content d))) content
    \<or> (\<exists>j. capturedBody (OutputResponse (capContent content d))
          = concat (map encodeRune (take j (decodeRunes content))))"
proof -
  have "capturedBody (OutputResponse (capContent content d))
      = truncateUTF8Safe content (MaxPromptLength - length TruncationMarker)"
    using assms by (simp add: capContent_def capturedBody_def)
  then show ?thesis
    using truncateUTF8Safe_source[of content "MaxPromptLength - length TruncationMarker"]
    by simp
qed

text \<open>
  C7 (amended).  The limit of 50000 is a number of bytes, as \<open>len\<close> counts them; a text
  of more than 50000 characters has more than 50000 bytes.  For a streamed text, and for
  the joined text blocks of a response, of more than 50000 bytes:
  the captured output has at most 50000 bytes, is valid UTF-8, ends with the truncation
  marker, and the truncated flag is set; what precedes the marker is a prefix of the
  text or of its runes encoded again; and when the text is valid UTF-8, what precedes
  the marker is a prefix of the text that is itself valid UTF-8 (no code point is split)
  and is at most three bytes shorter than the room the marker leaves.  For a text of at
  most 50000 bytes the output is the text itself and the flag keeps the value that was
  passed in (it stays false).
\<close>

theorem prompt_truncation:
  "(MaxPromptLength < RuneCountInString s \<longrightarrow> MaxPromptLength < length s)
   \<and> (MaxPromptLength < RuneCountInString (responseText resp) \<longrightarrow>
      MaxPromptLength < length (responseText resp))
   \<and> (MaxPromptLength < length s \<longrightarrow>
      length (OutputResponse (ExtractStreamingResponseContent s pt)) \<le> MaxPromptLength
      \<and> ValidString (OutputResponse (ExtractStreamingResponseContent s pt))
      \<and> suffix TruncationMarker (OutputResponse (ExtractStreamingResponseContent s pt))
      \<and> PromptsTruncated (ExtractStreamingResponseContent s pt)
      \<and> (prefix (capturedBody (OutputResponse (ExtractStreamingResponseContent s pt))) s
         \<or> (\<exists>j. capturedBody (OutputResponse (ExtractStreamingResponseContent s pt))
               = concat (map encodeRune (take j (decodeRunes s))))))
   \<and> (MaxPromptLength < length s \<and> ValidString s \<longrightarrow>
      OutputResponse (ExtractStreamingResponseContent s pt)
        = capturedBody (OutputResponse (ExtractStreamingResponseContent s pt)) @ TruncationMarker
      \<and> capturedBody (OutputResponse (ExtractStreamingResponseContent s pt))
        = take (length (capturedBody (OutputResponse (ExtractStreamingResponseContent s pt)))) s
      \<and> ValidString (capturedBody (OutputResponse (ExtractStreamingResponseContent s pt)))
      \<and> MaxPromptLength \<le> length (OutputResponse (ExtractStreamingResponseContent s pt)) + 3)
   \<and> (length s \<le> MaxPromptLength \<longrightarrow>
      OutputResponse (ExtractStreamingResponseContent s pt) = s
      \<and> PromptsTruncated (ExtractStreamingResponseContent s pt) = pt)
   \<and> (MaxPromptLength < length (responseText resp) \<longrightarrow>
      length (OutputResponse (ExtractResponseContent resp pt)) \<le> MaxPromptLength
      \<and> ValidString (OutputResponse (ExtractResponseContent resp pt))
      \<and> suffix TruncationMarker (OutputResponse (ExtractResponseContent resp pt))
      \<and> PromptsTruncated (ExtractResponseContent resp pt)
      \<and> (prefix (capturedBody (OutputResponse (ExtractResponseContent resp pt)))
            (responseText resp)
         \<or> (\<exists>j. capturedBody (OutputResponse (ExtractResponseContent resp pt))
               = concat (map encodeRune (take j (decodeRunes (responseText resp)))))))
   \<and> (MaxPromptLength < length (responseText resp) \<and> ValidString (responseText resp) \<longrightarrow>
      OutputResponse (ExtractResponseContent resp pt)
        = capturedBody (OutputResponse (ExtractResponseContent resp pt)) @ TruncationMarker
      \<and> capturedBody (OutputResponse (ExtractResponseContent resp pt))
        = take (length (capturedBody (OutputResponse (ExtractResponseContent resp pt))))
            (responseText resp)
      \<and> ValidString (capturedBody (OutputResponse (ExtractResponseContent resp pt)))
      \<and> MaxPromptLength \<le> length (OutputResponse (ExtractResponseContent resp pt)) + 3)
   \<and> (length (responseText resp) \<le> MaxPromptLength \<longrightarrow>
      OutputResponse (ExtractResponseContent resp pt) = responseText resp
      \<and> PromptsTruncated (ExtractResponseContent resp pt) = pt)"
  unfolding ExtractStreaming_cap ExtractResponse_cap
  using capContent_long[of s "emptyPromptData pt"] capContent_short[of s "emptyPromptData pt"]
    capContent_wellformed[of s "emptyPromptData pt"] capContent_source[of s "emptyPromptData pt"]
    capContent_long[of "responseText resp" "emptyPromptData pt"]
    capContent_short[of "responseText resp" "emptyPromptData pt"]
    capContent_wellformed[of "responseText resp" "emptyPromptData pt"]
    capContent_source[of "responseText resp" "emptyPromptData pt"]
    RuneCount_long[of s] RuneCount_long[of "responseText resp"]
  by (simp add: emptyPromptData_def)

text \<open>Texts of euro signs: their length, validity, runes, bytes and prefixes.\<close>

lemma euroText_Suc: "euroText (Suc n) = euroSign @ euroText n"
  by (simp add: euroText_def)

lemma length_euroText: "length (euroText n) = 3 * n"
  by (induction n) (simp_all add: euroText_Suc, simp_all add: euroText_def euroSign_def)

lemma euro_bytes:
  "byteOf (CHR 0xE2) = 226" "byteOf (CHR 0x82) = 130" "byteOf (CHR 0xAC) = 172"
  "byteOf (CHR ''a'') = 97"
  by (simp_all add: byteOf_def)

lemma seqLen_euro: "seqLen (euroSign @ t) = 3"
  by (simp add: euroSign_def euro_bytes inRange_def acceptLo_def acceptHi_def)

lemma ValidString_euroText: "ValidString (euroText n)"
proof (induction n)
  case 0
  show ?case by (simp add: euroText_def ValidString_Nil)
next
  case (Suc n)
  have "ValidString (euroSign @ euroText n) = ValidString (drop 3 (euroSign @ euroText n))"
    using ValidString_step[of "euroSign @ euroText n"]
    by (simp add: seqLen_euro) (simp add: euroSign_def)
  also have "drop 3 (euroSign @ euroText n) = euroText n"
    by (simp add: euroSign_def)
  finally show ?case using Suc by (simp add: euroText_Suc)
qed

lemma decodeRunes_euroText: "decodeRunes (euroText n) = replicate n 0x20AC"
proof (induction n)
  case 0
  show ?case by (simp add: euroText_def decodeRunes.simps)
next
  case (Suc n)
  have "decodeRunes (euroSign @ euroText n)
      = runeValue (take 3 (euroSign @ euroText n)) # decodeRunes (drop 3 (euroSign @ euroText n))"
    by (subst decodeRunes.simps) (simp add: seqLen_euro, simp add: euroSign_def)
  also have "take 3 (euroSign @ euroText n) = euroSign" by (simp add: euroSign_def)
  also have "drop 3 (euroSign @ euroText n) = euroText n" by (simp add: euroSign_def)
  also have "runeValue euroSign = 0x20AC" by (simp add: euroSign_def euro_bytes)
  finally show ?case using Suc by (simp add: euroText_Suc)
qed

lemma euroText_nth:
  "i < n \<Longrightarrow> j < 3 \<Longrightarrow> euroText n ! (3 * i + j) = euroSign ! j"
proof (induction n arbitrary: i)
  case 0
  then show ?case by simp
next
  case (Suc n)
  show ?case
  proof (cases i)
    case 0
    with Suc.prems show ?thesis
      by (simp add: euroText_Suc nth_append) (simp add: euroSign_def)
  next
    case (Suc i')
    have "length euroSign = 3" by (simp add: euroSign_def)
    then have "(euroSign @ euroText n) ! (3 + (3 * i' + j)) = euroText n ! (3 * i' + j)"
      by (metis nth_append_length_plus)
    then have "(euroSign @ euroText n) ! (3 + 3 * i' + j) = euroText n ! (3 * i' + j)"
      by (simp add: add.assoc)
    with Suc Suc.prems Suc.IH[of i'] show ?thesis
      by (simp add: euroText_Suc)
  qed
qed

lemma take_euroText: "i \<le> n \<Longrightarrow> take (3 * i) (euroText n) = euroText i"
proof (induction n arbitrary: i)
  case 0
  then show ?case by (simp add: euroText_def)
next
  case (Suc n)
  show ?case
  proof (cases i)
    case 0
    then show ?thesis by (simp add: euroText_def)
  next
    case (Suc i')
    have "length euroSign = 3" by (simp add: euroSign_def)
    then have "take (3 + 3 * i') (euroSign @ euroText n) = euroSign @ take (3 * i') (euroText n)"
      by simp
    with Suc Suc.prems Suc.IH[of i'] show ?thesis
      by (simp add: euroText_Suc)
  qed
qed

lemma backUp_euro:
  assumes "i < n"
  shows "backUp (CHR ''a'' # euroText n) (Suc (3 * i + 2)) = Suc (3 * i)"
proof -
  let ?s = "CHR ''a'' # euroText n"
  have len: "Suc (3 * i + 2) < length ?s" using assms by (simp add: length_euroText)
  have n2: "?s ! Suc (3 * i + 2) = CHR 0xAC" "?s ! Suc (3 * i + 1) = CHR 0x82"
    "?s ! Suc (3 * i) = CHR 0xE2"
    using euroText_nth[OF assms, of 2] euroText_nth[OF assms, of 1] euroText_nth[OF assms, of 0]
    by (simp_all add: euroSign_def)
  have c: "inRange 0x80 0xBF (CHR 0xAC)" "inRange 0x80 0xBF (CHR 0x82)"
    "\<not> inRange 0x80 0xBF (CHR 0xE2)"
    by (simp_all add: inRange_def euro_bytes)
  have "backUp ?s (Suc (3 * i + 2)) = backUp ?s (Suc (3 * i + 1))"
    using len n2(1) c(1) by (simp add: isCont_range del: nth_Cons_Suc)
  also have "\<dots> = backUp ?s (Suc (3 * i))"
    using len n2(2) c(2) by (simp add: isCont_range del: nth_Cons_Suc)
  also have "\<dots> = Suc (3 * i)"
    using n2(3) c(3) by (simp add: isCont_range del: nth_Cons_Suc)
  finally show ?thesis .
qed

text \<open>
  C7 (as stated, refuted).  A text of 16667 euro signs is valid UTF-8 and has 16667
  characters, fewer than the limit of 50000; it has 50001 bytes, and the extractor cuts
  it and sets the truncated flag.
\<close>

theorem prompt_truncation_characters_counterexample:
  "ValidString (euroText 16667)
   \<and> RuneCountInString (euroText 16667) = 16667
   \<and> RuneCountInString (euroText 16667) \<le> MaxPromptLength
   \<and> OutputResponse (ExtractStreamingResponseContent (euroText 16667) False) \<noteq> euroText 16667
   \<and> PromptsTruncated (ExtractStreamingResponseContent (euroText 16667) False)"
proof -
  have r: "RuneCountInString (euroText 16667) = 16667"
    by (simp add: RuneCountInString_def decodeRunes_euroText)
  have l: "length (euroText 16667) = 50001" by (simp add: length_euroText)
  then have long: "MaxPromptLength < length (euroText 16667)"
    by (simp add: MaxPromptLength_def)
  have "length (OutputResponse (capContent (euroText 16667) (emptyPromptData False)))
      \<le> MaxPromptLength"
    using capContent_long(1)[OF long] .
  then have ne: "OutputResponse (ExtractStreamingResponseContent (euroText 16667) False)
      \<noteq> euroText 16667"
    using l unfolding ExtractStreaming_cap by (auto simp: MaxPromptLength_def)
  have fl: "PromptsTruncated (ExtractStreamingResponseContent (euroText 16667) False)"
    unfolding ExtractStreaming_cap using capContent_long(4)[OF long] .
  show ?thesis
    using ValidString_euroText[of 16667] r ne fl by (simp add: MaxPromptLength_def)
qed

theorem prompt_truncation_witness:
  "MaxPromptLength < RuneCountInString exLongText
   \<and> MaxPromptLength < length exLongText
   \<and> ValidString exLongText
   \<and> OutputResponse (ExtractStreamingResponseContent exLongText False)
      = CHR ''a'' # euroText 16661 @ TruncationMarker
   \<and> length (OutputResponse (ExtractStreamingResponseContent exLongText False)) = 49998
   \<and> ValidString (OutputResponse (ExtractStreamingResponseContent exLongText False))
   \<and> suffix TruncationMarker (OutputResponse (ExtractStreamingResponseContent exLongText False))
   \<and> PromptsTruncated (ExtractStreamingResponseContent exLongText False)
   \<and> capturedBody (OutputResponse (ExtractStreamingResponseContent exLongText False))
      = take 49984 exLongText
   \<and> ValidString (take 49984 exLongText)
   \<and> length ''hello'' \<le> MaxPromptLength
   \<and> OutputResponse (ExtractStreamingResponseContent ''hello'' False) = ''hello''
   \<and> PromptsTruncated (ExtractStreamingResponseContent ''hello'' False) = False
   \<and> responseText (Some exLongResponse) = exLongText
   \<and> OutputResponse (ExtractResponseContent (Some exLongResponse) False)
      = CHR ''a'' # euroText 16661 @ TruncationMarker
   \<and> PromptsTruncated (ExtractResponseContent (Some exLongResponse) False)
   \<and> length (responseText (Some exShortResponse)) \<le> MaxPromptLength
   \<and> OutputResponse (ExtractResponseContent (Some exShortResponse) False)
      = ''hi'' @ [CHR 0x0A] @ ''there''
   \<and> PromptsTruncated (ExtractResponseContent (Some exShortResponse) False) = False"
proof -
  have len: "length exLongText = 150001"
    by (simp add: exLongText_def length_euroText)
  have "decodeRunes exLongText = 97 # decodeRunes (euroText 50000)"
    unfolding exLongText_def by (subst decodeRunes.simps) (simp add: euro_bytes)
  then have runes: "MaxPromptLength < RuneCountInString exLongText"
    by (simp add: RuneCountInString_def decodeRunes_euroText MaxPromptLength_def)
  have long: "MaxPromptLength < length exLongText"
    by (simp add: len MaxPromptLength_def)
  have va: "ValidString [CHR ''a'']" by (rule valid1) (simp add: euro_bytes)
  have valid: "ValidString exLongText"
    using ValidString_append[OF va, of "euroText 50000"] ValidString_euroText[of 50000]
    by (simp add: exLongText_def)
  have short: "length ''hello'' \<le> MaxPromptLength"
    by (simp add: MaxPromptLength_def)
  have ne: "exLongText \<noteq> []" by (simp add: exLongText_def)
  have rl: "responseText (Some exLongResponse) = exLongText"
    using ne by (simp add: responseText_def textPartsOf_def exLongResponse_def)
  have rtext: "responseText (Some exShortResponse) = ''hi'' @ [CHR 0x0A] @ ''there''"
    by (simp add: responseText_def textPartsOf_def exShortResponse_def)
  have rshort: "length (responseText (Some exShortResponse)) \<le> MaxPromptLength"
    unfolding rtext by (simp add: MaxPromptLength_def)
  note t1 = prompt_truncation[where s = exLongText and pt = False
      and resp = "Some exLongResponse"]
  note t2 = prompt_truncation[where s = "''hello''" and pt = False
      and resp = "Some exShortResponse"]
  have out: "OutputResponse (ExtractStreamingResponseContent exLongText False)
      = capturedBody (OutputResponse (ExtractStreamingResponseContent exLongText False))
        @ TruncationMarker"
    using t1 long valid by blast
  have k: "MaxPromptLength - length TruncationMarker = Suc (3 * 16661 + 2)"
    by (simp add: MaxPromptLength_def TruncationMarker_def)
  have bu: "backUp exLongText (MaxPromptLength - length TruncationMarker) = 49984"
    unfolding k exLongText_def by (subst backUp_euro) simp_all
  have kl: "MaxPromptLength - length TruncationMarker < length exLongText"
    by (simp add: len MaxPromptLength_def)
  have body: "capturedBody (OutputResponse (ExtractStreamingResponseContent exLongText False))
      = take 49984 exLongText"
  proof -
    have "OutputResponse (capContent exLongText (emptyPromptData False))
        = take 49984 exLongText @ TruncationMarker"
      using long truncateUTF8Safe_wellformed(1)[OF valid kl] bu
      by (simp add: capContent_def)
    then show ?thesis
      unfolding ExtractStreaming_cap by (simp only: capturedBody_append)
  qed
  have "take 49984 exLongText = CHR ''a'' # take (3 * 16661) (euroText 50000)"
    by (simp add: exLongText_def)
  also have "\<dots> = CHR ''a'' # euroText 16661"
    by (subst take_euroText) simp_all
  finally have tk: "take 49984 exLongText = CHR ''a'' # euroText 16661" .
  have o2: "OutputResponse (ExtractStreamingResponseContent exLongText False)
      = CHR ''a'' # euroText 16661 @ TruncationMarker"
    using out body tk by simp
  have l2: "length (OutputResponse (ExtractStreamingResponseContent exLongText False)) = 49998"
    unfolding o2 by (simp add: length_euroText TruncationMarker_def)
  have vb: "ValidString (capturedBody (OutputResponse (ExtractStreamingResponseContent exLongText False)))"
    using t1 long valid by blast
  have same: "OutputResponse (ExtractResponseContent (Some exLongResponse) False)
      = OutputResponse (ExtractStreamingResponseContent exLongText False)"
    unfolding ExtractStreaming_cap ExtractResponse_cap rl ..
  have a: "OutputResponse (ExtractResponseContent (Some exShortResponse) False)
      = responseText (Some exShortResponse)"
    using rshort t2 by blast
  have b: "PromptsTruncated (ExtractResponseContent (Some exShortResponse) False) = False"
    using rshort t2 by blast
  have c: "PromptsTruncated (ExtractResponseContent (Some exLongResponse) False)"
    using t1 long unfolding rl by blast
  have d: "ValidString (OutputResponse (ExtractStreamingResponseContent exLongText False))"
    "suffix TruncationMarker (OutputResponse (ExtractStreamingResponseContent exLongText False))"
    "PromptsTruncated (ExtractStreamingResponseContent exLongText False)"
    using t1 long by blast+
  have e: "OutputResponse (ExtractStreamingResponseContent ''hello'' False) = ''hello''"
    "PromptsTruncated (ExtractStreamingResponseContent ''hello'' False) = False"
    using t2 short by blast+
  have f: "OutputResponse (ExtractResponseContent (Some exLongResponse) False)
      = CHR ''a'' # euroText 16661 @ TruncationMarker"
    using same o2 by (rule trans)
  from runes long valid o2 l2 d body vb[unfolded body] short e rl f c rshort a[unfolded rtext] b
  show ?thesis by (intro conjI)
qed

subsection \<open>The metering payload\<close>

lemma copyKeys_other: "k \<notin> set ks \<Longrightarrow> copyKeys md ks p k = p k"
  by (induction ks arbitrary: p) (auto split: option.splits)

lemma addVision_other:
  "k \<noteq> ''hasVisionContent'' \<Longrightarrow> k \<noteq> ''attributes'' \<Longrightarrow> addVision ps p k = p k"
  by (simp add: addVision_def split: option.splits)

lemma reserved_not_copied:
  "''stopReason'' \<notin> set metadataKeys" "''operationType'' \<notin> set metadataKeys"
  "''inputTokenCount'' \<notin> set metadataKeys" "''outputTokenCount'' \<notin> set metadataKeys"
  "''totalTokenCount'' \<notin> set metadataKeys"
  by (simp_all add: metadataKeys_def)

lemma buildMeteringPayload_operationType:
  "buildMeteringPayload env resp md isStreamed duration prov start ps ''operationType''
     = Some (VString ''CHAT'')"
  by (simp add: buildMeteringPayload_def Let_def addVision_other copyKeys_other
      reserved_not_copied split: option.splits)

lemma buildMeteringPayload_errorReason:
  assumes "md = Some m" "m ''errorReason'' = Some v"
  shows "buildMeteringPayload env resp md isStreamed duration prov start ps ''stopReason''
     = Some (VString ''ERROR'')"
  using assms by (simp add: buildMeteringPayload_def Let_def addVision_other)

lemma buildMeteringPayload_tokens:
  "buildMeteringPayload env resp md isStreamed duration prov start ps ''inputTokenCount''
     = Some (VInt64 (InputTokens (UsageOf resp)))"
  "buildMeteringPayload env resp md isStreamed duration prov start ps ''outputTokenCount''
     = Some (VInt64 (OutputTokens (UsageOf resp)))"
  "buildMeteringPayload env resp md isStreamed duration prov start ps ''totalTokenCount''
     = Some (VInt64 (InputTokens (UsageOf resp) + OutputTokens (UsageOf resp)))"
  by (simp_all add: buildMeteringPayload_def Let_def addVision_other copyKeys_other
      reserved_not_copied split: option.splits)

lemma AddPromptData_tokens:
  "AddPromptDataToPayload p d ''inputTokenCount'' = p ''inputTokenCount''"
  "AddPromptDataToPayload p d ''outputTokenCount'' = p ''outputTokenCount''"
  "AddPromptDataToPayload p d ''totalTokenCount'' = p ''totalTokenCount''"
  by (simp_all add: AddPromptDataToPayload_def Let_def)

lemma reachable_total:
  "reachable sw \<Longrightarrow> totalTokens sw = inputTokens sw + outputTokens sw"
proof (induction rule: reachable.induct)
  case (opened md now prov p pd)
  show ?case by (simp add: newStreamingWrapper_def SetInputTokens_def)
next
  case (setInputTokens sw tokens)
  show ?case by (simp add: SetInputTokens_def)
next
  case (setModel sw m)
  then show ?case by (simp add: SetModel_def)
next
  case (current sw event now)
  then show ?case by (simp add: Current_def Let_def split: option.splits)
qed

lemma closePayload_tokens:
  "closePayload env sw now ''inputTokenCount'' = Some (VInt64 (inputTokens sw))"
  "closePayload env sw now ''outputTokenCount'' = Some (VInt64 (outputTokens sw))"
  "closePayload env sw now ''totalTokenCount'' = Some (VInt64 (totalTokens sw))"
  by (simp_all add: closePayload_def Let_def split: option.splits)

text \<open>
  C10.  For every response and every caller metadata: if the metadata contains the key
  \<open>errorReason\<close>, the field \<open>stopReason\<close> of the payload is \<open>ERROR\<close>, whatever the stop
  reason of the response maps to; and the field \<open>operationType\<close> is always the constant
  \<open>CHAT\<close>, also when the metadata contains the key \<open>operationType\<close>.
\<close>

theorem buildMeteringPayload_reserved:
  "(md = Some m \<and> m ''errorReason'' = Some v \<longrightarrow>
      buildMeteringPayload env resp md isStreamed duration prov start ps ''stopReason''
        = Some (VString ''ERROR''))
   \<and> buildMeteringPayload env resp md isStreamed duration prov start ps ''operationType''
        = Some (VString ''CHAT'')"
  using buildMeteringPayload_errorReason[of md m v env resp isStreamed duration prov start ps]
    buildMeteringPayload_operationType[of env resp md isStreamed duration prov start ps]
  by blast

theorem buildMeteringPayload_reserved_witness:
  "buildMeteringPayload exEnv exResp
      (Some [''errorReason'' \<mapsto> VString ''upstream failure'',
             ''operationType'' \<mapsto> VString ''EMBED'']) False 1500000000 ''Anthropic'' 0
      (Some exParams) ''stopReason'' = Some (VString ''ERROR'' :: unit Value)
   \<and> buildMeteringPayload exEnv exResp
      (Some [''errorReason'' \<mapsto> VString ''upstream failure'',
             ''operationType'' \<mapsto> VString ''EMBED'']) False 1500000000 ''Anthropic'' 0
      (Some exParams) ''operationType'' = Some (VString ''CHAT'' :: unit Value)"
  using buildMeteringPayload_reserved[of
      "Some [''errorReason'' \<mapsto> VString ''upstream failure'',
             ''operationType'' \<mapsto> VString ''EMBED'']"
      "[''errorReason'' \<mapsto> VString ''upstream failure'',
             ''operationType'' \<mapsto> VString ''EMBED'']"
      "VString ''upstream failure'' :: unit Value" exEnv exResp False 1500000000 "''Anthropic''" 0
      "Some exParams"]
  by simp

text \<open>
  C5.  In the payload \<open>buildMeteringPayload\<close> builds, in the payload handed to the
  dispatcher for a non-streaming call (with or without prompt data), and in the payload
  \<open>Close\<close> builds from any state a streaming wrapper can reach, the field
  \<open>totalTokenCount\<close> is the sum of the fields \<open>inputTokenCount\<close> and \<open>outputTokenCount\<close>.
\<close>

theorem token_total_is_sum:
  "tokenFieldsAdd (buildMeteringPayload env resp md isStreamed duration prov start ps)
   \<and> tokenFieldsAdd (meteringPayloadWithPrompts env resp md isStreamed duration prov start ps pd)
   \<and> (reachable sw \<longrightarrow> tokenFieldsAdd (closePayload env sw now))"
proof (intro conjI impI)
  show "tokenFieldsAdd (buildMeteringPayload env resp md isStreamed duration prov start ps)"
    by (simp add: tokenFieldsAdd_def buildMeteringPayload_tokens)
  show "tokenFieldsAdd
      (meteringPayloadWithPrompts env resp md isStreamed duration prov start ps pd)"
    by (simp add: tokenFieldsAdd_def meteringPayloadWithPrompts_def AddPromptData_tokens
        buildMeteringPayload_tokens split: option.splits)
  assume "reachable sw"
  then show "tokenFieldsAdd (closePayload env sw now)"
    by (simp add: tokenFieldsAdd_def closePayload_tokens reachable_total)
qed

theorem token_total_is_sum_witness:
  "reachable (Current (newStreamingWrapper None 0 ''Anthropic'' exParams None
       :: unit StreamingWrapper) exEvent 7)
   \<and> tokenFieldsAdd (closePayload exEnv
        (Current (newStreamingWrapper None 0 ''Anthropic'' exParams None
           :: unit StreamingWrapper) exEvent 7) 9)
   \<and> closePayload exEnv
        (Current (newStreamingWrapper None 0 ''Anthropic'' exParams None
           :: unit StreamingWrapper) exEvent 7) 9 ''totalTokenCount'' = Some (VInt64 42)"
proof -
  have r: "reachable (Current (newStreamingWrapper None 0 ''Anthropic'' exParams None
       :: unit StreamingWrapper) exEvent 7)"
    by (intro reachable.current reachable.opened)
  have t: "totalTokens (Current (newStreamingWrapper None 0 ''Anthropic'' exParams None
       :: unit StreamingWrapper) exEvent 7) = 42"
    by (simp add: Current_def exEvent_def isContentEvent_def isMessageDeltaEvent_def
        extractUsageFromEvent_def extractStopReasonFromEvent_def Let_def)
  have a: "tokenFieldsAdd (closePayload exEnv
        (Current (newStreamingWrapper None 0 ''Anthropic'' exParams None
           :: unit StreamingWrapper) exEvent 7) 9)"
    using r token_total_is_sum[where env = exEnv and now = 9 and sw =
        "Current (newStreamingWrapper None 0 ''Anthropic'' exParams None
           :: unit StreamingWrapper) exEvent 7"]
    by blast
  show ?thesis
    using r t a by (simp add: closePayload_tokens)
qed

end
